theory Spec2Isabelle
  imports Main "HOL-Library.Word"
begin

section \<open>The syslog client of \<^verbatim>\<open>component/logger/syslog.c\<close>\<close>

text \<open>
  Conventions of the embedding.
  \<^item> A C string is the list of its bytes before the terminating NUL; a pointer that may be
    \<^verbatim>\<open>NULL\<close> is an \<open>option\<close>.
  \<^item> \<^verbatim>\<open>log_level_t\<close> is \<^verbatim>\<open>int\<close>: an \<open>int\<close> here. \<^verbatim>\<open>facility\<close> is only ever the static
    initialiser \<^verbatim>\<open>SYSLOG_FACILITY_USER\<close> (the file has no setter), so \<^verbatim>\<open>facility * 8\<close>
    stays far inside the range of a C \<^verbatim>\<open>int\<close>.
  \<^item> \<^verbatim>\<open>uint32_t\<close> counters are \<open>32 word\<close> (\<open>+\<close> wraps), the port is a \<open>16 word\<close>.
  \<^item> What FreeRTOS, lwIP and the RTC answer is not decided by this code. Each call takes
    those answers as an explicit environment: whether a semaphore was obtained within
    \<^verbatim>\<open>MUTEX_TIMEOUT_MS\<close>, whether \<^verbatim>\<open>udp_new\<close>, \<^verbatim>\<open>udp_bind\<close>, \<^verbatim>\<open>pbuf_alloc\<close>, \<^verbatim>\<open>pbuf_take\<close>
    and \<^verbatim>\<open>udp_sendto\<close> succeeded, and what other tasks wrote to the shared state while
    the caller waited for the mutex.
\<close>

subsection \<open>Data model\<close>

type_synonym log_level_t = int
type_synonym ip_addr_t = "32 word"
type_synonym udp_pcb = nat
type_synonym SemaphoreHandle_t = nat

definition LOG_LEVEL_NONE :: log_level_t where "LOG_LEVEL_NONE = 0"
definition LOG_LEVEL_ERROR :: log_level_t where "LOG_LEVEL_ERROR = 1"
definition LOG_LEVEL_WARNING :: log_level_t where "LOG_LEVEL_WARNING = 2"
definition LOG_LEVEL_INFO :: log_level_t where "LOG_LEVEL_INFO = 3"
definition LOG_LEVEL_DEBUG :: log_level_t where "LOG_LEVEL_DEBUG = 4"
definition LOG_LEVEL_VERBOSE :: log_level_t where "LOG_LEVEL_VERBOSE = 5"

definition SYSLOG_FACILITY_USER :: int where "SYSLOG_FACILITY_USER = 1"

definition SYSLOG_MAX_MESSAGE_SIZE :: nat where "SYSLOG_MAX_MESSAGE_SIZE = 1024"

record Syslog_t =
  server :: ip_addr_t
  port :: "16 word"
  facility :: int
  min_level :: log_level_t
  hostname :: string
  app_name :: string
  initialized :: bool
  udp :: "udp_pcb option"
  mutex :: "SemaphoreHandle_t option"
  send_count :: "32 word"
  failed_count :: "32 word"

text \<open>The static initialiser of \<^verbatim>\<open>logger_syslog\<close>.\<close>

definition logger_syslog_init :: Syslog_t where
  "logger_syslog_init =
     \<lparr> server = 0, port = 514, facility = SYSLOG_FACILITY_USER,
       min_level = LOG_LEVEL_VERBOSE, hostname = ''craner'', app_name = ''logger'',
       initialized = False, udp = None, mutex = None,
       send_count = 0, failed_count = 0 \<rparr>"

text \<open>
  The RTC as \<^verbatim>\<open>board_get_timestamp\<close> reads it: \<open>None\<close> when \<^verbatim>\<open>HAL_RTC_GetTime\<close> or
  \<^verbatim>\<open>HAL_RTC_GetDate\<close> fails, else the fields Year, Month, Date, Hours, Minutes, Seconds.
\<close>

type_synonym rtc_reading = "nat \<times> nat \<times> nat \<times> nat \<times> nat \<times> nat"

text \<open>
  The environment of one call of \<^verbatim>\<open>logger_output\<close>: \<open>meanwhile\<close> is what other tasks did
  to \<^verbatim>\<open>logger_syslog\<close> between the unguarded test of line 185 and the end of the wait of
  line 188; \<open>guard_taken\<close> is whether that wait obtained the mutex.
\<close>

record emit_env =
  guard_taken :: bool
  meanwhile :: "Syslog_t \<Rightarrow> Syslog_t"
  rtc :: "rtc_reading option"
  pbuf_alloc_ok :: bool
  pbuf_take_ok :: bool
  udp_sendto_ok :: bool

type_synonym datagram = "udp_pcb option \<times> string \<times> ip_addr_t \<times> 16 word"

type_synonym emit_call = "log_level_t \<times> string option \<times> string"

text \<open>
  The whole state the file works on: the global \<^verbatim>\<open>logger_syslog\<close>; the function-local
  statics of \<^verbatim>\<open>logger_printf_line\<close> (\<open>line_buf\<close> holds the first \<^verbatim>\<open>line_len\<close> bytes of the C
  array, so \<^verbatim>\<open>line_len\<close> is its length); what \<^verbatim>\<open>printf\<close> has written (one entry per call);
  the datagrams \<^verbatim>\<open>udp_sendto\<close> accepted; the UDP control blocks this client has obtained
  from \<^verbatim>\<open>udp_new\<close> and not yet given to \<^verbatim>\<open>udp_remove\<close>. Two fields are bookkeeping of the
  model: \<open>emit_log\<close> is the history of the calls of \<^verbatim>\<open>logger_output\<close> (its arguments), and
  \<open>future k\<close> is the environment that the \<open>k\<close>-th call of \<^verbatim>\<open>logger_output\<close> meets.
\<close>

record system =
  logger_syslog :: Syslog_t
  line_buf :: string
  cur_level :: log_level_t
  cur_tag :: string
  line_mutex :: "SemaphoreHandle_t option"
  stdout :: "string list"
  wire :: "datagram list"
  pcbs :: "udp_pcb list"
  emit_log :: "emit_call list"
  future :: "nat \<Rightarrow> emit_env"

definition boot :: "(nat \<Rightarrow> emit_env) \<Rightarrow> system" where
  "boot f =
     \<lparr> logger_syslog = logger_syslog_init, line_buf = [], cur_level = LOG_LEVEL_DEBUG,
       cur_tag = [], line_mutex = None, stdout = [], wire = [], pcbs = [],
       emit_log = [], future = f \<rparr>"

subsection \<open>Rendering numbers (\<^verbatim>\<open>%d\<close>, \<^verbatim>\<open>%u\<close>, \<^verbatim>\<open>%02lu\<close>)\<close>

definition digit :: "nat \<Rightarrow> char" where
  "digit n = ''0123456789'' ! (n mod 10)"

function dec_nat :: "nat \<Rightarrow> string" where
  "dec_nat n = (if n < 10 then [digit n] else dec_nat (n div 10) @ [digit n])"
  by pat_completeness auto
termination
  by (relation "measure id") auto

definition dec_int :: "int \<Rightarrow> string" where
  "dec_int i = (if i < 0 then CHR ''-'' # dec_nat (nat (- i)) else dec_nat (nat i))"

definition pad0 :: "nat \<Rightarrow> nat \<Rightarrow> string" where
  "pad0 w n = replicate (w - length (dec_nat n)) CHR ''0'' @ dec_nat n"

subsection \<open>\<^verbatim>\<open>board_get_timestamp\<close> (board.c)\<close>

definition board_get_timestamp :: "rtc_reading option \<Rightarrow> nat \<Rightarrow> string" where
  "board_get_timestamp r buffer_size =
     (if buffer_size < 20 then []
      else case r of
        None \<Rightarrow> []
      | Some (yy, mo, dd, hh, mi, ss) \<Rightarrow>
          take (buffer_size - 1)
            (pad0 4 (2000 + yy) @ ''-'' @ pad0 2 mo @ ''-'' @ pad0 2 dd @ '' '' @
             pad0 2 hh @ '':'' @ pad0 2 mi @ '':'' @ pad0 2 ss))"

subsection \<open>Severity, priority and the formatter\<close>

definition syslog_get_severity :: "Syslog_t \<Rightarrow> log_level_t \<Rightarrow> int" where
  "syslog_get_severity s level =
     (if level = LOG_LEVEL_NONE then 0
      else if level = LOG_LEVEL_ERROR then 3
      else if level = LOG_LEVEL_WARNING then 4
      else if level = LOG_LEVEL_INFO then 6
      else if level = LOG_LEVEL_DEBUG then 7
      else if level = LOG_LEVEL_VERBOSE then 7
      else 6)"

definition syslog_get_priority :: "Syslog_t \<Rightarrow> log_level_t \<Rightarrow> int" where
  "syslog_get_priority s level = (facility s * 8) + syslog_get_severity s level"

text \<open>
  What \<^verbatim>\<open>snprintf\<close> would write with room enough, for the format
  \<^verbatim>\<open><%d>%s %s %s[%s]: %s\<close>.
\<close>

definition render_record ::
  "int \<Rightarrow> string \<Rightarrow> string \<Rightarrow> string \<Rightarrow> string \<Rightarrow> string \<Rightarrow> string" where
  "render_record priority timestamp host app tag message =
     ''<'' @ dec_int priority @ ''>'' @ timestamp @ '' '' @ host @ '' '' @ app @
     ''['' @ tag @ '']: '' @ message"

text \<open>
  \<^verbatim>\<open>syslog_format_msg\<close> returns the length written, 0 for a failure; the rendering is
  never empty, so the model returns the buffer's text, \<open>None\<close> for the failure. The buffer
  is a local array at the only call site, never \<^verbatim>\<open>NULL\<close>.
\<close>

definition syslog_format_msg ::
  "Syslog_t \<Rightarrow> nat \<Rightarrow> rtc_reading option \<Rightarrow> log_level_t \<Rightarrow> string option \<Rightarrow> string
     \<Rightarrow> string option" where
  "syslog_format_msg s bufferSize r level tag message =
     (if bufferSize < 64 then None
      else
        let timestamp = board_get_timestamp r 20;
            priority = syslog_get_priority s level;
            rendered = render_record priority timestamp (hostname s) (app_name s)
                         (case tag of None \<Rightarrow> ''unknown'' | Some t \<Rightarrow> t) message
        in if length rendered \<ge> bufferSize then None else Some rendered)"

subsection \<open>\<^verbatim>\<open>logger_output\<close>\<close>

definition count_failure :: "Syslog_t \<Rightarrow> Syslog_t" where
  "count_failure s = s\<lparr>failed_count := failed_count s + 1\<rparr>"

definition count_sent :: "Syslog_t \<Rightarrow> Syslog_t" where
  "count_sent s = s\<lparr>send_count := send_count s + 1\<rparr>"

text \<open>\<^verbatim>\<open>printf\<close>: one entry of \<open>stdout\<close> per call.\<close>

definition printf :: "string \<Rightarrow> system \<Rightarrow> system" where
  "printf text sys = sys\<lparr>stdout := stdout sys @ [text]\<rparr>"

text \<open>\<^verbatim>\<open>printf("%s\n", message)\<close>, the fallback of line 231.\<close>

definition printf_fallback :: "string \<Rightarrow> system \<Rightarrow> system" where
  "printf_fallback message sys = printf (message @ [CHR 0x0A]) sys"

text \<open>
  The message is never \<^verbatim>\<open>NULL\<close> at a call site of the file. The result is the returned
  \<^verbatim>\<open>bool\<close> and the state after the call. A datagram records the \<^verbatim>\<open>s->udp\<close> it was sent
  on.
\<close>

definition logger_output ::
  "log_level_t \<Rightarrow> string option \<Rightarrow> string \<Rightarrow> system \<Rightarrow> bool \<times> system" where
  "logger_output level tag message sys0 =
     (let e = future sys0 (length (emit_log sys0));
          sys = sys0\<lparr>emit_log := emit_log sys0 @ [(level, tag, message)]\<rparr>;
          s = logger_syslog sys
      in
        if initialized s \<and> udp s \<noteq> None \<and> mutex s \<noteq> None then
          if level > min_level s then (True, sys)
          else
            let s1 = meanwhile e s in
            if \<not> guard_taken e then (False, sys\<lparr>logger_syslog := count_failure s1\<rparr>)
            else if \<not> initialized s1 \<or> udp s1 = None then
              (True, printf_fallback message (sys\<lparr>logger_syslog := count_failure s1\<rparr>))
            else
              (case syslog_format_msg s1 SYSLOG_MAX_MESSAGE_SIZE (rtc e) level tag message of
                 None \<Rightarrow> (False, sys\<lparr>logger_syslog := count_failure s1\<rparr>)
               | Some buffer \<Rightarrow>
                   if pbuf_alloc_ok e \<and> pbuf_take_ok e \<and> udp_sendto_ok e
                   then (True, sys\<lparr>logger_syslog := count_sent s1,
                                    wire := wire sys @ [(udp s1, buffer, server s1, port s1)]\<rparr>)
                   else (False, sys\<lparr>logger_syslog := count_failure s1\<rparr>))
        else (True, printf_fallback message sys))"

subsection \<open>\<^verbatim>\<open>init_logger\<close>\<close>

text \<open>
  The environment of one call of \<^verbatim>\<open>init_logger\<close>: lwIP's \<^verbatim>\<open>ipaddr_aton\<close> (\<open>None\<close> when it
  returns 0) and \<^verbatim>\<open>ipaddr_ntoa_r\<close>, the handle \<^verbatim>\<open>xSemaphoreCreateMutex\<close> returns, whether
  \<^verbatim>\<open>xSemaphoreTake\<close> obtained the mutex, whether \<^verbatim>\<open>udp_new\<close> returned a block and whether
  \<^verbatim>\<open>udp_bind\<close> returned \<^verbatim>\<open>ERR_OK\<close>.
\<close>

record init_env =
  ipaddr_aton :: "string \<Rightarrow> ip_addr_t option"
  ipaddr_ntoa :: "ip_addr_t \<Rightarrow> string"
  mutex_create :: "SemaphoreHandle_t option"
  mutex_taken :: bool
  udp_new_ok :: bool
  udp_bind_ok :: bool

text \<open>\<^verbatim>\<open>udp_new\<close> hands out a block that is not live; \<^verbatim>\<open>udp_remove\<close> ends its life.\<close>

definition fresh_pcb :: "udp_pcb list \<Rightarrow> udp_pcb" where
  "fresh_pcb ps = Suc (fold max ps 0)"

definition udp_remove :: "udp_pcb \<Rightarrow> system \<Rightarrow> system" where
  "udp_remove pcb sys = sys\<lparr>pcbs := removeAll pcb (pcbs sys)\<rparr>"

definition set_udp :: "udp_pcb option \<Rightarrow> system \<Rightarrow> system" where
  "set_udp p sys = sys\<lparr>logger_syslog := (logger_syslog sys)\<lparr>udp := p\<rparr>\<rparr>"

definition set_initialized :: "bool \<Rightarrow> system \<Rightarrow> system" where
  "set_initialized b sys = sys\<lparr>logger_syslog := (logger_syslog sys)\<lparr>initialized := b\<rparr>\<rparr>"

text \<open>Lines 142 to 151.\<close>

definition cleanup_existing :: "system \<Rightarrow> system" where
  "cleanup_existing sys =
     (if initialized (logger_syslog sys) then
        set_initialized False
          (case udp (logger_syslog sys) of
             None \<Rightarrow> sys
           | Some pcb \<Rightarrow> set_udp None (udp_remove pcb sys))
      else sys)"

text \<open>Lines 156 to 165.\<close>

definition create_and_bind :: "init_env \<Rightarrow> system \<Rightarrow> system" where
  "create_and_bind env sys =
     (if udp_new_ok env then
        let pcb = fresh_pcb (pcbs sys);
            sys1 = set_udp (Some pcb) (sys\<lparr>pcbs := pcbs sys @ [pcb]\<rparr>)
        in if udp_bind_ok env then sys1 else set_udp None (udp_remove pcb sys1)
      else set_udp None sys)"

definition init_logger :: "init_env \<Rightarrow> string option \<Rightarrow> int \<Rightarrow> system \<Rightarrow> bool \<times> system" where
  "init_logger env ipstr port_arg sys =
     (case ipstr of
        None \<Rightarrow> (False, printf (''ERROR: init_logger_params: NULL ipstr'' @ [CHR 0x0A]) sys)
      | Some ip \<Rightarrow>
          if port_arg \<le> 0 \<or> port_arg > 65535 then
            (False, printf (''ERROR: init_logger_params: invalid port '' @ dec_int port_arg
                             @ [CHR 0x0A]) sys)
          else
            (case ipaddr_aton env ip of
               None \<Rightarrow>
                 (False, printf (''ERROR: init_logger_params: invalid ip string '' @ [CHR 0x27]
                                  @ ip @ [CHR 0x27, CHR 0x0A]) sys)
             | Some srv \<Rightarrow>
                 let sys1 =
                       (if mutex (logger_syslog sys) = None
                        then sys\<lparr>logger_syslog := (logger_syslog sys)\<lparr>mutex := mutex_create env\<rparr>\<rparr>
                        else sys)
                 in
                   if mutex (logger_syslog sys1) = None then
                     (False, printf (''ERROR: Failed to create syslog mutex'' @ [CHR 0x0A]) sys1)
                   else if \<not> mutex_taken env then
                     (False, printf (''ERROR: Failed to take syslog mutex'' @ [CHR 0x0A]) sys1)
                   else
                     let sys2 = cleanup_existing sys1;
                         sys3 = sys2\<lparr>logger_syslog :=
                                  (logger_syslog sys2)\<lparr>server := srv, port := word_of_int port_arg\<rparr>\<rparr>;
                         sys4 = create_and_bind env sys3
                     in
                       if udp (logger_syslog sys4) = None then
                         (False, printf (''ERROR: Failed to create UDP PCB for syslog''
                                          @ [CHR 0x0A]) sys4)
                       else
                         let sys5 = set_initialized True sys4;
                             s = logger_syslog sys5
                         in (True, printf (''Syslog initialized: '' @ ipaddr_ntoa env (server s)
                                            @ '':'' @ dec_nat (unat (port s)) @ [CHR 0x0A]) sys5)))"

subsection \<open>Minimum level and statistics\<close>

text \<open>
  \<open>taken\<close> is whether \<^verbatim>\<open>xSemaphoreTake\<close> obtained the mutex. The out-parameters of
  \<^verbatim>\<open>logger_get_stats\<close> are given by what they point to before the call (\<open>None\<close> for a
  \<^verbatim>\<open>NULL\<close> pointer) and returned as what they point to after it.
\<close>

definition logger_set_min_level :: "bool \<Rightarrow> log_level_t \<Rightarrow> system \<Rightarrow> system" where
  "logger_set_min_level taken lvl sys =
     (if mutex (logger_syslog sys) = None then sys
      else if \<not> taken then sys
      else sys\<lparr>logger_syslog := (logger_syslog sys)\<lparr>min_level := lvl\<rparr>\<rparr>)"

definition logger_get_min_level :: "system \<Rightarrow> log_level_t" where
  "logger_get_min_level sys = min_level (logger_syslog sys)"

definition logger_get_stats ::
  "bool \<Rightarrow> 32 word option \<Rightarrow> 32 word option \<Rightarrow> system \<Rightarrow> 32 word option \<times> 32 word option" where
  "logger_get_stats taken sent failed sys =
     (if sent = None \<or> failed = None then (sent, failed)
      else if mutex (logger_syslog sys) = None then (sent, failed)
      else if \<not> taken then (sent, failed)
      else (Some (send_count (logger_syslog sys)), Some (failed_count (logger_syslog sys))))"

definition logger_reset_stats :: "bool \<Rightarrow> system \<Rightarrow> system" where
  "logger_reset_stats taken sys =
     (if mutex (logger_syslog sys) = None then sys
      else if \<not> taken then sys
      else sys\<lparr>logger_syslog := (logger_syslog sys)\<lparr>send_count := 0, failed_count := 0\<rparr>\<rparr>)"

definition logger_is_initialized :: "system \<Rightarrow> int" where
  "logger_is_initialized sys = (if initialized (logger_syslog sys) then 1 else 0)"

subsection \<open>\<^verbatim>\<open>logger_printf_line\<close>: the line accumulator\<close>

text \<open>
  \<^verbatim>\<open>format\<close> may be \<^verbatim>\<open>NULL\<close>; \<^verbatim>\<open>vsnprintf\<close> either fails (\<^verbatim>\<open>n < 0\<close>) or renders the format and
  its arguments. \<open>Rendered r\<close> carries the whole text \<open>r\<close> that the format and arguments
  stand for, of any length; what fits in \<^verbatim>\<open>tmp\<close> is decided by the model below.
\<close>

datatype rendering = RenderError | Rendered string

text \<open>
  The environment of one call: the handle \<^verbatim>\<open>xSemaphoreCreateMutex\<close> returns for
  \<^verbatim>\<open>line_mutex\<close>, and whether \<^verbatim>\<open>xSemaphoreTake(line_mutex, ...)\<close> obtained it.
\<close>

record line_env =
  line_mutex_create :: "SemaphoreHandle_t option"
  line_mutex_taken :: bool

definition is_nl :: "char \<Rightarrow> bool" where
  "is_nl c = (c = CHR 0x0D \<or> c = CHR 0x0A)"

text \<open>\<^verbatim>\<open>tag ? tag : "printf"\<close>.\<close>

definition use_tag :: "string option \<Rightarrow> string" where
  "use_tag tag = (case tag of None \<Rightarrow> ''printf'' | Some t \<Rightarrow> t)"

text \<open>
  \<^verbatim>\<open>all_ok = all_ok && logger_output(...)\<close>: the \<^verbatim>\<open>&&\<close> of C does not evaluate its right
  operand when \<^verbatim>\<open>all_ok\<close> is already false, so the record is then not emitted at all.
\<close>

definition and_emit ::
  "log_level_t \<Rightarrow> string \<Rightarrow> string \<Rightarrow> bool \<times> system \<Rightarrow> bool \<times> system" where
  "and_emit level tag message st =
     (case st of (all_ok, sys) \<Rightarrow>
        if all_ok then logger_output level (Some tag) message sys else (False, sys))"

text \<open>
  Lines 283 to 290. \<^verbatim>\<open>cur_tag\<close> holds at most 47 bytes, so \<^verbatim>\<open>strncmp(cur_tag, tag, 48)\<close>
  is 0 exactly when the first 48 bytes of both strings agree.
\<close>

definition attrs_changed :: "log_level_t \<Rightarrow> string option \<Rightarrow> system \<Rightarrow> bool" where
  "attrs_changed level tag sys =
     ((case tag of
         None \<Rightarrow> False
       | Some t \<Rightarrow> cur_tag sys \<noteq> [] \<and> take 48 (cur_tag sys) \<noteq> take 48 t)
      \<or> level \<noteq> cur_level sys)"

definition flush_on_attr_change ::
  "log_level_t \<Rightarrow> string option \<Rightarrow> bool \<times> system \<Rightarrow> bool \<times> system" where
  "flush_on_attr_change level tag st =
     (case st of (all_ok, sys) \<Rightarrow>
        if line_buf sys \<noteq> [] \<and> attrs_changed level tag sys then
          (case and_emit (cur_level sys)
                  (if cur_tag sys \<noteq> [] then cur_tag sys else use_tag tag)
                  (line_buf sys) (all_ok, sys) of
             (ok, sys') \<Rightarrow> (ok, sys'\<lparr>line_buf := [], cur_tag := []\<rparr>))
        else (all_ok, sys))"

text \<open>Lines 292 to 297: \<^verbatim>\<open>strncpy\<close> of at most 47 bytes, then the terminator.\<close>

definition adopt_attrs :: "log_level_t \<Rightarrow> string option \<Rightarrow> bool \<times> system \<Rightarrow> bool \<times> system" where
  "adopt_attrs level tag st =
     (case st of (all_ok, sys) \<Rightarrow>
        if line_buf sys = [] then
          (all_ok, sys\<lparr>cur_level := level, cur_tag := take 47 (use_tag tag)\<rparr>)
        else (all_ok, sys))"

text \<open>
  Lines 306 to 313: full slices of \<^verbatim>\<open>sizeof(line_buf) - 1\<close> bytes, each sent as a record of
  its own; the result carries what is left of the chunk.
\<close>

function flush_slices ::
  "log_level_t \<Rightarrow> string option \<Rightarrow> string \<Rightarrow> bool \<times> system \<Rightarrow> string \<times> bool \<times> system" where
  "flush_slices level tag chunk st =
     (if length chunk > SYSLOG_MAX_MESSAGE_SIZE - 1 then
        flush_slices level tag (drop (SYSLOG_MAX_MESSAGE_SIZE - 1) chunk)
          (and_emit level (use_tag tag) (take (SYSLOG_MAX_MESSAGE_SIZE - 1) chunk) st)
      else (chunk, st))"
  by pat_completeness auto
termination
  by (relation "measure (\<lambda>(level, tag, chunk, st). length chunk)")
     (auto simp: SYSLOG_MAX_MESSAGE_SIZE_def)

text \<open>
  Lines 299 to 314. \<^verbatim>\<open>space\<close> is a \<^verbatim>\<open>size_t\<close>; \<^verbatim>\<open>line_len\<close> never exceeds
  \<^verbatim>\<open>sizeof(line_buf) - 1\<close> (lemma \<open>line_loop_bounded\<close> below), so the subtraction does not
  wrap.
\<close>

definition make_room ::
  "log_level_t \<Rightarrow> string option \<Rightarrow> string \<Rightarrow> bool \<times> system \<Rightarrow> string \<times> bool \<times> system" where
  "make_room level tag chunk st =
     (case st of (all_ok, sys) \<Rightarrow>
        let space = SYSLOG_MAX_MESSAGE_SIZE - 1 - length (line_buf sys) in
        if length chunk > space then
          flush_slices level tag chunk
            (if line_buf sys \<noteq> [] then
               (case and_emit (cur_level sys) (cur_tag sys) (line_buf sys) (all_ok, sys) of
                  (ok, sys') \<Rightarrow> (ok, sys'\<lparr>line_buf := []\<rparr>))
             else (all_ok, sys))
        else (chunk, all_ok, sys))"

text \<open>Lines 316 to 318.\<close>

definition append_chunk :: "string \<times> bool \<times> system \<Rightarrow> bool \<times> system" where
  "append_chunk cst =
     (case cst of (chunk, all_ok, sys) \<Rightarrow> (all_ok, sys\<lparr>line_buf := line_buf sys @ chunk\<rparr>))"

text \<open>Lines 321 to 324.\<close>

definition flush_line :: "bool \<times> system \<Rightarrow> bool \<times> system" where
  "flush_line st =
     (case st of (all_ok, sys) \<Rightarrow>
        (case and_emit (cur_level sys) (cur_tag sys) (line_buf sys) (all_ok, sys) of
           (ok, sys') \<Rightarrow> (ok, sys'\<lparr>line_buf := [], cur_tag := []\<rparr>)))"

text \<open>
  Lines 326 to 332, on the text from \<^verbatim>\<open>nl\<close> on: \<^verbatim>\<open>nl[1]\<close> is the terminating NUL when the
  terminator is the last byte.
\<close>

fun skip_terminator :: "string \<Rightarrow> string" where
  "skip_terminator (a # b # rest) =
     (if a = CHR 0x0D \<and> b = CHR 0x0A then rest
      else if a = CHR 0x0A \<and> b = CHR 0x0D then rest
      else b # rest)"
| "skip_terminator [a] = []"
| "skip_terminator [] = []"

text \<open>
  Lines 283 to 318 for one segment: the bytes of \<^verbatim>\<open>p\<close> up to the next terminator or the
  end.
\<close>

definition take_segment ::
  "log_level_t \<Rightarrow> string option \<Rightarrow> string \<Rightarrow> bool \<times> system \<Rightarrow> bool \<times> system" where
  "take_segment level tag chunk st =
     append_chunk (make_room level tag chunk (adopt_attrs level tag (flush_on_attr_change level tag st)))"

text \<open>
  The loop of lines 279 to 334 on the text at \<^verbatim>\<open>p\<close>. Without a terminator the segment is
  all of \<^verbatim>\<open>p\<close>, and \<^verbatim>\<open>p\<close> then stands on the NUL.
\<close>

function line_loop ::
  "log_level_t \<Rightarrow> string option \<Rightarrow> string \<Rightarrow> bool \<times> system \<Rightarrow> bool \<times> system" where
  "line_loop level tag p st =
     (if p = [] then st
      else
        let chunk = takeWhile (\<lambda>c. \<not> is_nl c) p;
            nl = dropWhile (\<lambda>c. \<not> is_nl c) p;
            st' = take_segment level tag chunk st
        in if nl = [] then st'
           else line_loop level tag (skip_terminator nl) (flush_line st'))"
  by pat_completeness auto
termination
proof (relation "measure (\<lambda>(level, tag, p, st). length p)")
  show "wf (measure (\<lambda>(level, tag, p, st). length p))"
    by simp
next
  fix level :: log_level_t and tag :: "string option" and p :: string
    and st :: "bool \<times> system" and x xa xb
  assume "p \<noteq> []" and xa: "xa = dropWhile (\<lambda>c. \<not> is_nl c) p" and "xa \<noteq> []"
  have "length (skip_terminator xa) < length xa"
    using \<open>xa \<noteq> []\<close> by (induction xa rule: skip_terminator.induct) auto
  moreover have "length xa \<le> length p"
    unfolding xa by (rule length_dropWhile_le)
  ultimately show "((level, tag, skip_terminator xa, flush_line xb), level, tag, p, st)
        \<in> measure (\<lambda>(level, tag, p, st). length p)"
    by simp
qed

text \<open>
  \<^verbatim>\<open>logger_printf_line\<close>: \<open>None\<close> is a \<^verbatim>\<open>NULL\<close> format. \<^verbatim>\<open>vsnprintf\<close> writes at most 255 bytes
  and the NUL into \<^verbatim>\<open>tmp[256]\<close>.
\<close>

definition logger_printf_line ::
  "line_env \<Rightarrow> log_level_t \<Rightarrow> string option \<Rightarrow> rendering option \<Rightarrow> system \<Rightarrow> bool \<times> system" where
  "logger_printf_line env level tag format sys =
     (case format of
        None \<Rightarrow> (False, sys)
      | Some v \<Rightarrow>
          let sys1 = (if line_mutex sys = None then sys\<lparr>line_mutex := line_mutex_create env\<rparr>
                      else sys)
          in (case v of
                RenderError \<Rightarrow> (False, sys1)
              | Rendered r \<Rightarrow>
                  let tmp = take 255 r in
                  if line_mutex sys1 \<noteq> None \<and> \<not> line_mutex_taken env then (False, sys1)
                  else line_loop level tag tmp (True, sys1)))"

subsection \<open>Vocabulary of the properties\<close>

text \<open>The environment that the next call of \<^verbatim>\<open>logger_output\<close> meets.\<close>

definition emit_env_now :: "system \<Rightarrow> emit_env" where
  "emit_env_now sys = future sys (length (emit_log sys))"

text \<open>The test of line 185.\<close>

definition transport_ready :: "Syslog_t \<Rightarrow> bool" where
  "transport_ready s = (initialized s \<and> udp s \<noteq> None \<and> mutex s \<noteq> None)"

text \<open>
  The severity table in the words of the specification: none to 0, error to 3, warning to
  4, info to 6, debug to 7, verbose to 7, and 6 for a level that is none of these.
\<close>

definition spec_severity :: "log_level_t \<Rightarrow> int" where
  "spec_severity level =
     (if level = LOG_LEVEL_NONE then 0
      else if level = LOG_LEVEL_ERROR then 3
      else if level = LOG_LEVEL_WARNING then 4
      else if level = LOG_LEVEL_INFO then 6
      else if level = LOG_LEVEL_DEBUG then 7
      else if level = LOG_LEVEL_VERBOSE then 7
      else 6)"

text \<open>
  The handle invariant: \<^verbatim>\<open>udp\<close> is non-null exactly when \<^verbatim>\<open>initialized\<close> is true, and the live
  control blocks of the client are exactly the one that \<^verbatim>\<open>udp\<close> points to.
\<close>

definition handle_inv :: "system \<Rightarrow> bool" where
  "handle_inv sys =
     ((udp (logger_syslog sys) \<noteq> None) = initialized (logger_syslog sys) \<and>
      pcbs sys = (case udp (logger_syslog sys) of None \<Rightarrow> [] | Some pcb \<Rightarrow> [pcb]))"

text \<open>
  A call of \<^verbatim>\<open>init_logger\<close> whose arguments are rejected by lines 107 to 120: a \<^verbatim>\<open>NULL\<close> or
  malformed address string, or a port outside 1..65535.
\<close>

definition malformed :: "init_env \<Rightarrow> string option \<Rightarrow> int \<Rightarrow> bool" where
  "malformed env ipstr port_arg =
     (case ipstr of
        None \<Rightarrow> True
      | Some ip \<Rightarrow> port_arg \<le> 0 \<or> port_arg > 65535 \<or> ipaddr_aton env ip = None)"

text \<open>A call of \<^verbatim>\<open>init_logger\<close> that gets as far as line 142, holding the mutex.\<close>

definition passes_guard :: "init_env \<Rightarrow> string option \<Rightarrow> int \<Rightarrow> system \<Rightarrow> bool" where
  "passes_guard env ipstr port_arg sys =
     (case ipstr of
        None \<Rightarrow> False
      | Some ip \<Rightarrow>
          0 < port_arg \<and> port_arg \<le> 65535 \<and> ipaddr_aton env ip \<noteq> None \<and>
          (mutex (logger_syslog sys) \<noteq> None \<or> mutex_create env \<noteq> None) \<and> mutex_taken env)"

text \<open>
  A call of \<^verbatim>\<open>logger_printf_line\<close> gets past line 273: it obtained \<^verbatim>\<open>line_mutex\<close>, or there
  is no mutex to take because \<^verbatim>\<open>xSemaphoreCreateMutex\<close> gave none.
\<close>

definition line_guard_ok :: "line_env \<Rightarrow> system \<Rightarrow> bool" where
  "line_guard_ok env sys =
     (line_mutex_taken env \<or> (line_mutex sys = None \<and> line_mutex_create env = None))"

text \<open>A tag that \<^verbatim>\<open>cur_tag[48]\<close> holds whole: \<^verbatim>\<open>NULL\<close>, or at most 47 bytes.\<close>

definition short_tag :: "string option \<Rightarrow> bool" where
  "short_tag tag = (case tag of None \<Rightarrow> True | Some t \<Rightarrow> length t < 48)"

text \<open>The cut between \<open>a\<close> and \<open>b\<close> separates a \<^verbatim>\<open>\r\<close> from a \<^verbatim>\<open>\n\<close> next to it.\<close>

definition splits_pair :: "string \<Rightarrow> string \<Rightarrow> bool" where
  "splits_pair a b =
     (a \<noteq> [] \<and> b \<noteq> [] \<and>
      ((last a = CHR 0x0D \<and> hd b = CHR 0x0A) \<or> (last a = CHR 0x0A \<and> hd b = CHR 0x0D)))"

text \<open>The bytes handed to \<^verbatim>\<open>logger_output\<close> so far, over all its calls.\<close>

definition emitted_bytes :: "system \<Rightarrow> nat" where
  "emitted_bytes sys = sum_list (map (\<lambda>c. length (snd (snd c))) (emit_log sys))"

text \<open>Lines 283 to 297: what happens to the pending line before a segment is looked at.\<close>

definition prep :: "log_level_t \<Rightarrow> string option \<Rightarrow> bool \<times> system \<Rightarrow> bool \<times> system" where
  "prep level tag st = adopt_attrs level tag (flush_on_attr_change level tag st)"

text \<open>
  Successive calls of \<^verbatim>\<open>logger_printf_line\<close> with the same level and tag, one per chunk;
  the boolean is the conjunction of the values they returned.
\<close>

fun feed_chunks ::
  "line_env \<Rightarrow> log_level_t \<Rightarrow> string option \<Rightarrow> string list \<Rightarrow> bool \<times> system \<Rightarrow> bool \<times> system" where
  "feed_chunks env level tag [] st = st"
| "feed_chunks env level tag (c # cs) st =
     feed_chunks env level tag cs
       (case logger_printf_line env level tag (Some (Rendered c)) (snd st) of
          (ok, sys') \<Rightarrow> (fst st \<and> ok, sys'))"

text \<open>No cut between two chunks separates a \<^verbatim>\<open>\r\<close> from a \<^verbatim>\<open>\n\<close> next to it.\<close>

fun cuts_ok :: "string list \<Rightarrow> bool" where
  "cuts_ok [] = True"
| "cuts_ok (c # cs) = (\<not> splits_pair c (concat cs) \<and> cuts_ok cs)"

text \<open>
  No other task touches the handle while a call of \<^verbatim>\<open>logger_output\<close> waits for the mutex:
  every \<open>meanwhile\<close> of the environment leaves \<^verbatim>\<open>udp\<close> and \<^verbatim>\<open>initialized\<close> as they are.
\<close>

definition quiet :: "system \<Rightarrow> bool" where
  "quiet sys =
     (\<forall>k s. udp (meanwhile (future sys k) s) = udp s \<and>
            initialized (meanwhile (future sys k) s) = initialized s)"

subsection \<open>Sample environments\<close>

text \<open>An environment in which every service answers, and nobody else touches the state.\<close>

definition cooperative :: emit_env where
  "cooperative =
     \<lparr> guard_taken = True, meanwhile = (\<lambda>s. s), rtc = Some (26, 10, 30, 12, 0, 5),
       pbuf_alloc_ok = True, pbuf_take_ok = True, udp_sendto_ok = True \<rparr>"

definition lwip_ok :: init_env where
  "lwip_ok =
     \<lparr> ipaddr_aton = (\<lambda>s. if s = ''192.168.1.1'' then Some 0xC0A80101 else None),
       ipaddr_ntoa = (\<lambda>a. ''192.168.1.1''), mutex_create = Some 1, mutex_taken = True,
       udp_new_ok = True, udp_bind_ok = True \<rparr>"

text \<open>The state after boot and one successful \<^verbatim>\<open>init_logger("192.168.1.1", 514)\<close>.\<close>

definition ready :: "(nat \<Rightarrow> emit_env) \<Rightarrow> system" where
  "ready f = snd (init_logger lwip_ok (Some ''192.168.1.1'') 514 (boot f))"

definition line_ok :: line_env where
  "line_ok = \<lparr> line_mutex_create = Some 2, line_mutex_taken = True \<rparr>"

text \<open>The state after boot and \<^verbatim>\<open>logger_printf_line(LOG_LEVEL_INFO, "A", "partial")\<close>.\<close>

definition partial_pending :: system where
  "partial_pending =
     snd (logger_printf_line line_ok LOG_LEVEL_INFO (Some ''A'') (Some (Rendered ''partial''))
            (boot (\<lambda>k. cooperative)))"

section \<open>Properties\<close>

subsection \<open>Evaluation lemmas\<close>

lemma dec_nat_small: "n < 10 \<Longrightarrow> dec_nat n = [digit n]"
  by simp

lemma dec_nat_big: "\<not> n < 10 \<Longrightarrow> dec_nat n = dec_nat (n div 10) @ [digit n]"
  by (subst dec_nat.simps) simp

declare dec_nat.simps [simp del]

lemmas level_defs =
  LOG_LEVEL_NONE_def LOG_LEVEL_ERROR_def LOG_LEVEL_WARNING_def LOG_LEVEL_INFO_def
  LOG_LEVEL_DEBUG_def LOG_LEVEL_VERBOSE_def

lemma ready_eq:
  "ready f =
     \<lparr> logger_syslog =
         \<lparr> server = 0xC0A80101, port = 514, facility = 1, min_level = 5,
           hostname = ''craner'', app_name = ''logger'', initialized = True,
           udp = Some 1, mutex = Some 1, send_count = 0, failed_count = 0 \<rparr>,
       line_buf = [], cur_level = 4, cur_tag = [], line_mutex = None,
       stdout = [''Syslog initialized: 192.168.1.1:514'' @ [CHR 0x0A]], wire = [],
       pcbs = [1], emit_log = [], future = f \<rparr>"
  by (simp add: ready_def init_logger_def lwip_ok_def boot_def logger_syslog_init_def
      cleanup_existing_def create_and_bind_def set_udp_def set_initialized_def fresh_pcb_def
      printf_def Let_def SYSLOG_FACILITY_USER_def level_defs
      dec_nat_small dec_nat_big digit_def)

subsection \<open>Priority\<close>

text \<open>
  C5. For every level, \<^verbatim>\<open>syslog_get_priority\<close> is \<open>facility * 8 + severityOf(level)\<close> with
  the severity table of the specification, and every record that \<^verbatim>\<open>syslog_format_msg\<close>
  produces starts with that number, in decimal, between \<open><\<close> and \<open>>\<close>.
\<close>

theorem priority_table:
  "syslog_get_priority s level = facility s * 8 + spec_severity level \<and>
   (case syslog_format_msg s n r level tag message of
      None \<Rightarrow> True
    | Some buffer \<Rightarrow>
        (let pri = ''<'' @ dec_int (facility s * 8 + spec_severity level) @ ''>''
         in take (length pri) buffer = pri))"
  by (simp add: syslog_get_priority_def syslog_get_severity_def spec_severity_def
      syslog_format_msg_def render_record_def Let_def)

theorem priority_table_witness:
  "syslog_get_priority logger_syslog_init LOG_LEVEL_INFO = 14 \<and>
   syslog_format_msg logger_syslog_init 1024 None LOG_LEVEL_INFO (Some ''A'') ''hello''
     = Some ''<14> craner logger[A]: hello''"
  using priority_table [of logger_syslog_init LOG_LEVEL_INFO 1024 None "Some ''A''" "''hello''"]
  by (simp add: syslog_format_msg_def render_record_def Let_def syslog_get_priority_def
      syslog_get_severity_def logger_syslog_init_def SYSLOG_FACILITY_USER_def
      level_defs board_get_timestamp_def dec_int_def dec_nat_small dec_nat_big digit_def)

subsection \<open>The branches of \<^verbatim>\<open>logger_output\<close>\<close>

lemma logger_output_fallback:
  "\<not> transport_ready (logger_syslog sys) \<Longrightarrow>
   logger_output level tag message sys =
     (True, printf_fallback message (sys\<lparr>emit_log := emit_log sys @ [(level, tag, message)]\<rparr>))"
  by (auto simp add: logger_output_def transport_ready_def Let_def)

lemma logger_output_filtered:
  "transport_ready (logger_syslog sys) \<Longrightarrow> level > min_level (logger_syslog sys) \<Longrightarrow>
   logger_output level tag message sys =
     (True, sys\<lparr>emit_log := emit_log sys @ [(level, tag, message)]\<rparr>)"
  by (simp add: logger_output_def transport_ready_def Let_def)

lemma logger_output_timeout:
  "transport_ready (logger_syslog sys) \<Longrightarrow> level \<le> min_level (logger_syslog sys) \<Longrightarrow>
   \<not> guard_taken (emit_env_now sys) \<Longrightarrow>
   logger_output level tag message sys =
     (False, sys\<lparr>emit_log := emit_log sys @ [(level, tag, message)],
                 logger_syslog :=
                   count_failure (meanwhile (emit_env_now sys) (logger_syslog sys))\<rparr>)"
  by (simp add: logger_output_def transport_ready_def emit_env_now_def Let_def)

lemma logger_output_recheck:
  "transport_ready (logger_syslog sys) \<Longrightarrow> level \<le> min_level (logger_syslog sys) \<Longrightarrow>
   guard_taken (emit_env_now sys) \<Longrightarrow>
   \<not> initialized (meanwhile (emit_env_now sys) (logger_syslog sys)) \<or>
   udp (meanwhile (emit_env_now sys) (logger_syslog sys)) = None \<Longrightarrow>
   logger_output level tag message sys =
     (True, printf_fallback message
        (sys\<lparr>emit_log := emit_log sys @ [(level, tag, message)],
             logger_syslog :=
               count_failure (meanwhile (emit_env_now sys) (logger_syslog sys))\<rparr>))"
  by (auto simp add: logger_output_def transport_ready_def emit_env_now_def Let_def)

lemma logger_output_format_failure:
  "transport_ready (logger_syslog sys) \<Longrightarrow> level \<le> min_level (logger_syslog sys) \<Longrightarrow>
   guard_taken (emit_env_now sys) \<Longrightarrow>
   initialized (meanwhile (emit_env_now sys) (logger_syslog sys)) \<Longrightarrow>
   udp (meanwhile (emit_env_now sys) (logger_syslog sys)) \<noteq> None \<Longrightarrow>
   syslog_format_msg (meanwhile (emit_env_now sys) (logger_syslog sys))
     SYSLOG_MAX_MESSAGE_SIZE (rtc (emit_env_now sys)) level tag message = None \<Longrightarrow>
   logger_output level tag message sys =
     (False, sys\<lparr>emit_log := emit_log sys @ [(level, tag, message)],
                 logger_syslog :=
                   count_failure (meanwhile (emit_env_now sys) (logger_syslog sys))\<rparr>)"
  by (auto simp add: logger_output_def transport_ready_def emit_env_now_def Let_def)

lemma logger_output_transport_failure:
  "transport_ready (logger_syslog sys) \<Longrightarrow> level \<le> min_level (logger_syslog sys) \<Longrightarrow>
   guard_taken (emit_env_now sys) \<Longrightarrow>
   initialized (meanwhile (emit_env_now sys) (logger_syslog sys)) \<Longrightarrow>
   udp (meanwhile (emit_env_now sys) (logger_syslog sys)) \<noteq> None \<Longrightarrow>
   syslog_format_msg (meanwhile (emit_env_now sys) (logger_syslog sys))
     SYSLOG_MAX_MESSAGE_SIZE (rtc (emit_env_now sys)) level tag message = Some buffer \<Longrightarrow>
   \<not> (pbuf_alloc_ok (emit_env_now sys) \<and> pbuf_take_ok (emit_env_now sys) \<and>
      udp_sendto_ok (emit_env_now sys)) \<Longrightarrow>
   logger_output level tag message sys =
     (False, sys\<lparr>emit_log := emit_log sys @ [(level, tag, message)],
                 logger_syslog :=
                   count_failure (meanwhile (emit_env_now sys) (logger_syslog sys))\<rparr>)"
  by (auto simp add: logger_output_def transport_ready_def emit_env_now_def Let_def)

lemma logger_output_sent:
  "transport_ready (logger_syslog sys) \<Longrightarrow> level \<le> min_level (logger_syslog sys) \<Longrightarrow>
   guard_taken (emit_env_now sys) \<Longrightarrow>
   initialized (meanwhile (emit_env_now sys) (logger_syslog sys)) \<Longrightarrow>
   udp (meanwhile (emit_env_now sys) (logger_syslog sys)) \<noteq> None \<Longrightarrow>
   syslog_format_msg (meanwhile (emit_env_now sys) (logger_syslog sys))
     SYSLOG_MAX_MESSAGE_SIZE (rtc (emit_env_now sys)) level tag message = Some buffer \<Longrightarrow>
   pbuf_alloc_ok (emit_env_now sys) \<Longrightarrow> pbuf_take_ok (emit_env_now sys) \<Longrightarrow>
   udp_sendto_ok (emit_env_now sys) \<Longrightarrow>
   logger_output level tag message sys =
     (True, sys\<lparr>emit_log := emit_log sys @ [(level, tag, message)],
                logger_syslog := count_sent (meanwhile (emit_env_now sys) (logger_syslog sys)),
                wire := wire sys @
                  [(udp (meanwhile (emit_env_now sys) (logger_syslog sys)), buffer,
                    server (meanwhile (emit_env_now sys) (logger_syslog sys)),
                    port (meanwhile (emit_env_now sys) (logger_syslog sys)))]\<rparr>)"
  by (auto simp add: logger_output_def transport_ready_def emit_env_now_def Let_def)

lemma fmt_eval:
  "syslog_format_msg (logger_syslog (ready f)) SYSLOG_MAX_MESSAGE_SIZE
     (Some (26, 10, 30, 12, 0, 5)) LOG_LEVEL_INFO (Some ''A'') ''hello''
   = Some ''<14>2026-10-30 12:00:05 craner logger[A]: hello''"
  by (simp add: ready_eq syslog_format_msg_def render_record_def Let_def syslog_get_priority_def
      syslog_get_severity_def SYSLOG_MAX_MESSAGE_SIZE_def level_defs board_get_timestamp_def
      dec_int_def pad0_def dec_nat_small dec_nat_big digit_def)

lemma emit_env_now_ready: "emit_env_now (ready f) = f 0"
  by (simp add: ready_eq emit_env_now_def)

lemma transport_ready_ready: "transport_ready (logger_syslog (ready f))"
  by (simp add: ready_eq transport_ready_def)

lemma ready_emit_sent:
  "logger_output LOG_LEVEL_INFO (Some ''A'') ''hello'' (ready (\<lambda>k. cooperative)) =
     (True, (ready (\<lambda>k. cooperative))
        \<lparr>emit_log := [(LOG_LEVEL_INFO, Some ''A'', ''hello'')],
         logger_syslog := (logger_syslog (ready (\<lambda>k. cooperative)))\<lparr>send_count := 1\<rparr>,
         wire := [(Some 1, ''<14>2026-10-30 12:00:05 craner logger[A]: hello'',
                   0xC0A80101, 514)]\<rparr>)"
  using logger_output_sent [of "ready (\<lambda>k. cooperative)" LOG_LEVEL_INFO "Some ''A''" "''hello''"
          "''<14>2026-10-30 12:00:05 craner logger[A]: hello''"]
        fmt_eval [of "\<lambda>k. cooperative"]
  by (simp add: emit_env_now_ready transport_ready_ready cooperative_def)
     (simp add: ready_eq level_defs count_sent_def)

subsection \<open>\<^verbatim>\<open>logger_output\<close>: the guard is not obtained\<close>

text \<open>
  C1, as the code has it. When the test of line 185 passes, the level passes the filter
  and the wait for the mutex times out, \<^verbatim>\<open>logger_output\<close> adds one to \<^verbatim>\<open>failed_count\<close> and
  returns false: nothing is written to the local sink and nothing is sent.
\<close>

theorem emit_guard_timeout:
  assumes "transport_ready (logger_syslog sys)"
    and "level \<le> min_level (logger_syslog sys)"
    and "\<not> guard_taken (emit_env_now sys)"
  shows "logger_output level tag message sys =
           (False, sys\<lparr>emit_log := emit_log sys @ [(level, tag, message)],
                       logger_syslog :=
                         count_failure (meanwhile (emit_env_now sys) (logger_syslog sys))\<rparr>)"
  using assms by (rule logger_output_timeout)

text \<open>
  The claim as written (the call falls back to the local sink and returns true) fails in
  the state after a successful \<^verbatim>\<open>init_logger\<close>, for an INFO message, when the mutex is not
  obtained: the call returns false and \<^verbatim>\<open>printf\<close> is not called.
\<close>

theorem emit_guard_timeout_counterexample:
  "fst (logger_output LOG_LEVEL_INFO (Some ''A'') ''hello''
          (ready (\<lambda>k. cooperative\<lparr>guard_taken := False\<rparr>))) = False \<and>
   stdout (snd (logger_output LOG_LEVEL_INFO (Some ''A'') ''hello''
          (ready (\<lambda>k. cooperative\<lparr>guard_taken := False\<rparr>))))
     = stdout (ready (\<lambda>k. cooperative\<lparr>guard_taken := False\<rparr>)) \<and>
   failed_count (logger_syslog (snd (logger_output LOG_LEVEL_INFO (Some ''A'') ''hello''
          (ready (\<lambda>k. cooperative\<lparr>guard_taken := False\<rparr>))))) = 1"
  by (simp add: ready_eq logger_output_def Let_def cooperative_def level_defs
      count_failure_def)

theorem emit_guard_timeout_witness:
  "logger_output LOG_LEVEL_INFO (Some ''A'') ''hello''
     (ready (\<lambda>k. cooperative\<lparr>guard_taken := False\<rparr>))
   = (False, (ready (\<lambda>k. cooperative\<lparr>guard_taken := False\<rparr>))
        \<lparr>emit_log := [(LOG_LEVEL_INFO, Some ''A'', ''hello'')],
         logger_syslog :=
           (logger_syslog (ready (\<lambda>k. cooperative\<lparr>guard_taken := False\<rparr>)))
             \<lparr>failed_count := 1\<rparr>\<rparr>)"
  using emit_guard_timeout [of "ready (\<lambda>k. cooperative\<lparr>guard_taken := False\<rparr>)"
      LOG_LEVEL_INFO "Some ''A''" "''hello''"]
  by (simp add: ready_eq transport_ready_def emit_env_now_def cooperative_def level_defs
      count_failure_def)

subsection \<open>\<^verbatim>\<open>logger_output\<close>: the level filter\<close>

text \<open>
  C2, as the code has it. In a state that passes the test of line 185, \<^verbatim>\<open>logger_output\<close>
  compares the levels themselves, not their severities: a level above \<^verbatim>\<open>min_level\<close>
  returns true and changes neither the counters nor the wire nor the sink; a level at or
  below \<^verbatim>\<open>min_level\<close> is counted, as sent or as failed; and when the mutex is obtained,
  the state is still initialized, the record fits and lwIP accepts it, exactly that
  record is sent.
\<close>

theorem emit_level_filter:
  assumes "transport_ready (logger_syslog sys)"
  shows "(level > min_level (logger_syslog sys) \<longrightarrow>
            logger_output level tag message sys =
              (True, sys\<lparr>emit_log := emit_log sys @ [(level, tag, message)]\<rparr>)) \<and>
         (level \<le> min_level (logger_syslog sys) \<longrightarrow>
            (let s1 = meanwhile (emit_env_now sys) (logger_syslog sys);
                 s' = logger_syslog (snd (logger_output level tag message sys))
             in (send_count s' = send_count s1 + 1 \<and> failed_count s' = failed_count s1) \<or>
                (send_count s' = send_count s1 \<and> failed_count s' = failed_count s1 + 1))) \<and>
         (level \<le> min_level (logger_syslog sys) \<and> guard_taken (emit_env_now sys) \<and>
          pbuf_alloc_ok (emit_env_now sys) \<and> pbuf_take_ok (emit_env_now sys) \<and>
          udp_sendto_ok (emit_env_now sys) \<and>
          initialized (meanwhile (emit_env_now sys) (logger_syslog sys)) \<and>
          udp (meanwhile (emit_env_now sys) (logger_syslog sys)) \<noteq> None \<and>
          syslog_format_msg (meanwhile (emit_env_now sys) (logger_syslog sys))
            SYSLOG_MAX_MESSAGE_SIZE (rtc (emit_env_now sys)) level tag message = Some buffer \<longrightarrow>
            (let s1 = meanwhile (emit_env_now sys) (logger_syslog sys)
             in logger_output level tag message sys =
                (True, sys\<lparr>emit_log := emit_log sys @ [(level, tag, message)],
                           logger_syslog := count_sent s1,
                           wire := wire sys @ [(udp s1, buffer, server s1, port s1)]\<rparr>)))"
proof (intro conjI impI)
  assume "level > min_level (logger_syslog sys)"
  with assms show "logger_output level tag message sys =
      (True, sys\<lparr>emit_log := emit_log sys @ [(level, tag, message)]\<rparr>)"
    by (rule logger_output_filtered)
next
  assume le: "level \<le> min_level (logger_syslog sys)"
  let ?e = "emit_env_now sys"
  let ?s1 = "meanwhile ?e (logger_syslog sys)"
  consider (timeout) "\<not> guard_taken ?e"
    | (recheck) "guard_taken ?e" "\<not> initialized ?s1 \<or> udp ?s1 = None"
    | (nofmt) "guard_taken ?e" "initialized ?s1" "udp ?s1 \<noteq> None"
        "syslog_format_msg ?s1 SYSLOG_MAX_MESSAGE_SIZE (rtc ?e) level tag message = None"
    | (fail) b where "guard_taken ?e" "initialized ?s1" "udp ?s1 \<noteq> None"
        "syslog_format_msg ?s1 SYSLOG_MAX_MESSAGE_SIZE (rtc ?e) level tag message = Some b"
        "\<not> (pbuf_alloc_ok ?e \<and> pbuf_take_ok ?e \<and> udp_sendto_ok ?e)"
    | (sent) b where "guard_taken ?e" "initialized ?s1" "udp ?s1 \<noteq> None"
        "syslog_format_msg ?s1 SYSLOG_MAX_MESSAGE_SIZE (rtc ?e) level tag message = Some b"
        "pbuf_alloc_ok ?e" "pbuf_take_ok ?e" "udp_sendto_ok ?e"
    by (cases "syslog_format_msg ?s1 SYSLOG_MAX_MESSAGE_SIZE (rtc ?e) level tag message") blast+
  then show "let s1 = ?s1; s' = logger_syslog (snd (logger_output level tag message sys))
             in (send_count s' = send_count s1 + 1 \<and> failed_count s' = failed_count s1) \<or>
                (send_count s' = send_count s1 \<and> failed_count s' = failed_count s1 + 1)"
  proof cases
    case timeout
    from logger_output_timeout [OF assms le this] show ?thesis
      by (simp add: count_failure_def)
  next
    case recheck
    from logger_output_recheck [OF assms le this] show ?thesis
      by (simp add: count_failure_def printf_fallback_def printf_def)
  next
    case nofmt
    from logger_output_format_failure [OF assms le this] show ?thesis
      by (simp add: count_failure_def)
  next
    case fail
    from logger_output_transport_failure [OF assms le this] show ?thesis
      by (simp add: count_failure_def)
  next
    case sent
    from logger_output_sent [OF assms le this] show ?thesis
      by (simp add: count_sent_def)
  qed
next
  assume "level \<le> min_level (logger_syslog sys) \<and> guard_taken (emit_env_now sys) \<and>
          pbuf_alloc_ok (emit_env_now sys) \<and> pbuf_take_ok (emit_env_now sys) \<and>
          udp_sendto_ok (emit_env_now sys) \<and>
          initialized (meanwhile (emit_env_now sys) (logger_syslog sys)) \<and>
          udp (meanwhile (emit_env_now sys) (logger_syslog sys)) \<noteq> None \<and>
          syslog_format_msg (meanwhile (emit_env_now sys) (logger_syslog sys))
            SYSLOG_MAX_MESSAGE_SIZE (rtc (emit_env_now sys)) level tag message = Some buffer"
  with assms show "let s1 = meanwhile (emit_env_now sys) (logger_syslog sys)
             in logger_output level tag message sys =
                (True, sys\<lparr>emit_log := emit_log sys @ [(level, tag, message)],
                           logger_syslog := count_sent s1,
                           wire := wire sys @ [(udp s1, buffer, server s1, port s1)]\<rparr>)"
    by (simp add: logger_output_sent Let_def)
qed

theorem emit_level_filter_witness:
  "logger_output LOG_LEVEL_INFO (Some ''A'') ''hello'' (ready (\<lambda>k. cooperative)) =
     (True, (ready (\<lambda>k. cooperative))
        \<lparr>emit_log := [(LOG_LEVEL_INFO, Some ''A'', ''hello'')],
         logger_syslog := (logger_syslog (ready (\<lambda>k. cooperative)))\<lparr>send_count := 1\<rparr>,
         wire := [(Some 1, ''<14>2026-10-30 12:00:05 craner logger[A]: hello'',
                   0xC0A80101, 514)]\<rparr>) \<and>
   logger_output 6 (Some ''A'') ''hello'' (ready (\<lambda>k. cooperative)) =
     (True, (ready (\<lambda>k. cooperative))\<lparr>emit_log := [(6, Some ''A'', ''hello'')]\<rparr>)"
  using emit_level_filter [of "ready (\<lambda>k. cooperative)" LOG_LEVEL_INFO "Some ''A''" "''hello''"
          "''<14>2026-10-30 12:00:05 craner logger[A]: hello''"]
        emit_level_filter [of "ready (\<lambda>k. cooperative)" 6 "Some ''A''" "''hello''" "[]"]
        fmt_eval [of "\<lambda>k. cooperative"]
  by (simp add: ready_eq transport_ready_def emit_env_now_def cooperative_def level_defs
      count_sent_def Let_def)

text \<open>
  The claim as written compares severities. DEBUG and VERBOSE both have severity 7, so
  with the minimum level DEBUG a VERBOSE message is "at least as severe as the minimum",
  yet the code, which compares 5 with 4, drops it: nothing is sent and no counter moves.
\<close>

theorem emit_level_filter_counterexample:
  "syslog_get_severity
      (logger_syslog (logger_set_min_level True LOG_LEVEL_DEBUG (ready (\<lambda>k. cooperative))))
      LOG_LEVEL_VERBOSE
     \<le> syslog_get_severity
          (logger_syslog (logger_set_min_level True LOG_LEVEL_DEBUG (ready (\<lambda>k. cooperative))))
          (min_level
            (logger_syslog (logger_set_min_level True LOG_LEVEL_DEBUG (ready (\<lambda>k. cooperative))))) \<and>
   wire (snd (logger_output LOG_LEVEL_VERBOSE (Some ''A'') ''hello''
                (logger_set_min_level True LOG_LEVEL_DEBUG (ready (\<lambda>k. cooperative))))) = [] \<and>
   logger_syslog (snd (logger_output LOG_LEVEL_VERBOSE (Some ''A'') ''hello''
                (logger_set_min_level True LOG_LEVEL_DEBUG (ready (\<lambda>k. cooperative)))))
     = logger_syslog (logger_set_min_level True LOG_LEVEL_DEBUG (ready (\<lambda>k. cooperative)))"
  by (simp add: ready_eq logger_set_min_level_def logger_output_def Let_def level_defs
      syslog_get_severity_def)

subsection \<open>\<^verbatim>\<open>init_logger\<close>\<close>

lemma cleanup_existing_released:
  assumes "handle_inv sys"
  shows "\<not> initialized (logger_syslog (cleanup_existing sys)) \<and>
         udp (logger_syslog (cleanup_existing sys)) = None \<and>
         pcbs (cleanup_existing sys) = []"
  using assms
  by (cases "udp (logger_syslog sys)")
     (auto simp add: handle_inv_def cleanup_existing_def set_udp_def set_initialized_def
        udp_remove_def)

lemma create_and_bind_result:
  assumes "pcbs sys = []" and "\<not> initialized (logger_syslog sys)"
  shows "\<not> initialized (logger_syslog (create_and_bind env sys)) \<and>
         (if udp_new_ok env \<and> udp_bind_ok env
          then udp (logger_syslog (create_and_bind env sys)) = Some (fresh_pcb []) \<and>
               pcbs (create_and_bind env sys) = [fresh_pcb []]
          else udp (logger_syslog (create_and_bind env sys)) = None \<and>
               pcbs (create_and_bind env sys) = [])"
  using assms
  by (simp add: create_and_bind_def set_udp_def udp_remove_def Let_def)

lemma init_logger_rejected:
  "malformed env ipstr port_arg \<Longrightarrow>
   \<exists>msg. init_logger env ipstr port_arg sys = (False, printf msg sys)"
  by (auto simp add: malformed_def init_logger_def split: option.splits)

lemma init_logger_no_guard:
  "\<not> passes_guard env ipstr port_arg sys \<Longrightarrow>
   fst (init_logger env ipstr port_arg sys) = False \<and>
   udp (logger_syslog (snd (init_logger env ipstr port_arg sys))) = udp (logger_syslog sys) \<and>
   initialized (logger_syslog (snd (init_logger env ipstr port_arg sys)))
     = initialized (logger_syslog sys) \<and>
   pcbs (snd (init_logger env ipstr port_arg sys)) = pcbs sys"
  by (cases ipstr; cases "mutex (logger_syslog sys)"; cases "mutex_create env")
     (auto simp add: passes_guard_def init_logger_def printf_def Let_def split: option.splits)

lemma handle_inv_printf: "handle_inv (printf text sys) = handle_inv sys"
  by (simp add: handle_inv_def printf_def)

lemma handle_inv_mutex:
  "handle_inv (sys\<lparr>logger_syslog := (logger_syslog sys)\<lparr>mutex := m\<rparr>\<rparr>) = handle_inv sys"
  by (simp add: handle_inv_def)

lemma init_logger_guarded:
  assumes g: "passes_guard env ipstr port_arg sys" and inv: "handle_inv sys"
  shows "handle_inv (snd (init_logger env ipstr port_arg sys)) \<and>
         fst (init_logger env ipstr port_arg sys) = (udp_new_ok env \<and> udp_bind_ok env) \<and>
         initialized (logger_syslog (snd (init_logger env ipstr port_arg sys)))
           = (udp_new_ok env \<and> udp_bind_ok env) \<and>
         pcbs (snd (init_logger env ipstr port_arg sys))
           = (if udp_new_ok env \<and> udp_bind_ok env then [fresh_pcb []] else [])"
proof -
  from g obtain ip srv where ip: "ipstr = Some ip" and port: "0 < port_arg" "port_arg \<le> 65535"
    and srv: "ipaddr_aton env ip = Some srv"
    and mx: "mutex (logger_syslog sys) \<noteq> None \<or> mutex_create env \<noteq> None"
    and taken: "mutex_taken env"
    by (auto simp add: passes_guard_def split: option.splits)
  define sys1 where "sys1 = (if mutex (logger_syslog sys) = None
      then sys\<lparr>logger_syslog := (logger_syslog sys)\<lparr>mutex := mutex_create env\<rparr>\<rparr> else sys)"
  define sys3 where "sys3 = (cleanup_existing sys1)\<lparr>logger_syslog :=
      (logger_syslog (cleanup_existing sys1))\<lparr>server := srv, port := word_of_int port_arg\<rparr>\<rparr>"
  define sys4 where "sys4 = create_and_bind env sys3"
  have inv1: "handle_inv sys1"
    using inv by (simp add: sys1_def handle_inv_mutex)
  have "mutex (logger_syslog sys1) \<noteq> None"
    using mx by (auto simp add: sys1_def)
  then obtain mh where m1: "mutex (logger_syslog sys1) = Some mh"
    by blast
  have c3: "pcbs sys3 = []" "\<not> initialized (logger_syslog sys3)"
    using cleanup_existing_released [OF inv1] by (simp_all add: sys3_def)
  note r = create_and_bind_result [OF c3, of env, folded sys4_def]
  have res: "init_logger env ipstr port_arg sys =
      (if udp (logger_syslog sys4) = None
       then (False, printf (''ERROR: Failed to create UDP PCB for syslog'' @ [CHR 0x0A]) sys4)
       else (True, printf (''Syslog initialized: ''
                @ ipaddr_ntoa env (server (logger_syslog (set_initialized True sys4)))
                @ '':'' @ dec_nat (unat (port (logger_syslog (set_initialized True sys4))))
                @ [CHR 0x0A]) (set_initialized True sys4)))"
    using ip port srv taken m1
    by (simp add: init_logger_def Let_def sys1_def [symmetric] sys3_def [symmetric]
        sys4_def [symmetric])
  show ?thesis
  proof (cases "udp_new_ok env \<and> udp_bind_ok env")
    case True
    with r show ?thesis
      by (simp add: res handle_inv_def printf_def set_initialized_def)
  next
    case False
    with r show ?thesis
      by (auto simp add: res handle_inv_def printf_def)
  qed
qed

text \<open>
  C7. For every \<^verbatim>\<open>NULL\<close> or malformed address string and every port outside 1..65535,
  \<^verbatim>\<open>init_logger\<close> returns false and leaves the whole state as it was: server, port,
  \<^verbatim>\<open>initialized\<close>, the transport handle, the mutex and the counters, and also the live
  control blocks. Its only effect is the diagnostic it prints.
\<close>

theorem configure_rejects:
  assumes "malformed env ipstr port_arg"
  shows "fst (init_logger env ipstr port_arg sys) = False \<and>
         (snd (init_logger env ipstr port_arg sys))\<lparr>stdout := stdout sys\<rparr> = sys"
proof -
  from init_logger_rejected [OF assms, of sys] obtain msg
    where "init_logger env ipstr port_arg sys = (False, printf msg sys)" by blast
  then show ?thesis by (simp add: printf_def)
qed

theorem configure_rejects_witness:
  "init_logger lwip_ok (Some ''192.168.1.1'') 70000 (ready (\<lambda>k. cooperative)) =
     (False, (ready (\<lambda>k. cooperative))
        \<lparr>stdout := stdout (ready (\<lambda>k. cooperative)) @
            [''ERROR: init_logger_params: invalid port 70000'' @ [CHR 0x0A]]\<rparr>) \<and>
   fst (init_logger lwip_ok (Some ''not an address'') 514 (ready (\<lambda>k. cooperative))) = False \<and>
   logger_syslog (snd (init_logger lwip_ok (Some ''not an address'') 514 (ready (\<lambda>k. cooperative))))
     = logger_syslog (ready (\<lambda>k. cooperative))"
  using configure_rejects [of lwip_ok "Some ''192.168.1.1''" 70000 "ready (\<lambda>k. cooperative)"]
        configure_rejects [of lwip_ok "Some ''not an address''" 514 "ready (\<lambda>k. cooperative)"]
  by (simp add: malformed_def lwip_ok_def init_logger_def printf_def dec_int_def
      dec_nat_small dec_nat_big digit_def)

lemma init_logger_handles:
  assumes "handle_inv sys"
  shows "handle_inv (snd (init_logger env ipstr port_arg sys)) \<and>
         length (pcbs (snd (init_logger env ipstr port_arg sys))) \<le> 1 \<and>
         (passes_guard env ipstr port_arg sys \<and> (\<not> udp_new_ok env \<or> \<not> udp_bind_ok env) \<longrightarrow>
            fst (init_logger env ipstr port_arg sys) = False \<and>
            \<not> initialized (logger_syslog (snd (init_logger env ipstr port_arg sys))) \<and>
            udp (logger_syslog (snd (init_logger env ipstr port_arg sys))) = None \<and>
            pcbs (snd (init_logger env ipstr port_arg sys)) = [])"
proof (cases "passes_guard env ipstr port_arg sys")
  case True
  note g = init_logger_guarded [OF True assms]
  from g have "handle_inv (snd (init_logger env ipstr port_arg sys))" by simp
  moreover from g have "length (pcbs (snd (init_logger env ipstr port_arg sys))) \<le> 1" by simp
  moreover have "udp (logger_syslog (snd (init_logger env ipstr port_arg sys))) = None"
    if "\<not> udp_new_ok env \<or> \<not> udp_bind_ok env"
    using g that by (auto simp add: handle_inv_def)
  ultimately show ?thesis using g by auto
next
  case False
  from init_logger_no_guard [OF False] assms False show ?thesis
    by (simp add: handle_inv_def split: option.splits)
qed

subsection \<open>Statistics\<close>

text \<open>
  C9, as the code has it. When the mutex exists and both calls obtain it,
  \<^verbatim>\<open>logger_reset_stats\<close> followed by \<^verbatim>\<open>logger_get_stats\<close> yields (0, 0). When the mutex does
  not exist or \<^verbatim>\<open>logger_get_stats\<close> does not obtain it, the caller's outputs are left
  unwritten. When \<^verbatim>\<open>logger_reset_stats\<close> does not obtain the mutex and \<^verbatim>\<open>logger_get_stats\<close>
  does, the outputs are the counters as they were, not reset. A call of
  \<^verbatim>\<open>logger_output\<close> that holds the mutex moves exactly one counter by exactly one: on the
  re-check path \<^verbatim>\<open>failed_count\<close>, once, and nothing is sent; when the record cannot be
  formatted \<^verbatim>\<open>failed_count\<close>; when it reaches lwIP, \<^verbatim>\<open>send_count\<close> if lwIP accepts it (and the
  record is on the wire) and \<^verbatim>\<open>failed_count\<close> if not.
\<close>

theorem stats_counting:
  "(mutex (logger_syslog sys) \<noteq> None \<longrightarrow>
      logger_get_stats True (Some a) (Some b) (logger_reset_stats True sys) = (Some 0, Some 0)) \<and>
   logger_get_stats get_taken (Some a) (Some b) (logger_reset_stats reset_taken sys)
     = (if mutex (logger_syslog sys) = None \<or> \<not> get_taken then (Some a, Some b)
        else if reset_taken then (Some 0, Some 0)
        else (Some (send_count (logger_syslog sys)), Some (failed_count (logger_syslog sys)))) \<and>
   (transport_ready (logger_syslog sys) \<and> level \<le> min_level (logger_syslog sys) \<and>
    guard_taken (emit_env_now sys) \<longrightarrow>
      (let e = emit_env_now sys;
           s1 = meanwhile e (logger_syslog sys);
           sys' = snd (logger_output level tag message sys);
           s' = logger_syslog sys'
       in if \<not> initialized s1 \<or> udp s1 = None then
            send_count s' = send_count s1 \<and> failed_count s' = failed_count s1 + 1 \<and>
            wire sys' = wire sys
          else
            (case syslog_format_msg s1 SYSLOG_MAX_MESSAGE_SIZE (rtc e) level tag message of
               None \<Rightarrow> send_count s' = send_count s1 \<and> failed_count s' = failed_count s1 + 1 \<and>
                       wire sys' = wire sys
             | Some buffer \<Rightarrow>
                 if pbuf_alloc_ok e \<and> pbuf_take_ok e \<and> udp_sendto_ok e then
                   send_count s' = send_count s1 + 1 \<and> failed_count s' = failed_count s1 \<and>
                   wire sys' = wire sys @ [(udp s1, buffer, server s1, port s1)]
                 else
                   send_count s' = send_count s1 \<and> failed_count s' = failed_count s1 + 1 \<and>
                   wire sys' = wire sys)))"
proof (intro conjI impI)
  assume "mutex (logger_syslog sys) \<noteq> None"
  then show "logger_get_stats True (Some a) (Some b) (logger_reset_stats True sys)
      = (Some 0, Some 0)"
    by (auto simp add: logger_get_stats_def logger_reset_stats_def)
next
  show "logger_get_stats get_taken (Some a) (Some b) (logger_reset_stats reset_taken sys)
     = (if mutex (logger_syslog sys) = None \<or> \<not> get_taken then (Some a, Some b)
        else if reset_taken then (Some 0, Some 0)
        else (Some (send_count (logger_syslog sys)), Some (failed_count (logger_syslog sys))))"
    by (auto simp add: logger_get_stats_def logger_reset_stats_def)
next
  let ?e = "emit_env_now sys"
  let ?s1 = "meanwhile ?e (logger_syslog sys)"
  let ?f = "syslog_format_msg ?s1 SYSLOG_MAX_MESSAGE_SIZE (rtc ?e) level tag message"
  assume "transport_ready (logger_syslog sys) \<and> level \<le> min_level (logger_syslog sys) \<and>
    guard_taken (emit_env_now sys)"
  then have r: "transport_ready (logger_syslog sys)"
    and le: "level \<le> min_level (logger_syslog sys)" and g: "guard_taken ?e"
    by simp_all
  consider (recheck) "\<not> initialized ?s1 \<or> udp ?s1 = None"
    | (nofmt) "initialized ?s1" "udp ?s1 \<noteq> None" "?f = None"
    | (fail) b where "initialized ?s1" "udp ?s1 \<noteq> None" "?f = Some b"
        "\<not> (pbuf_alloc_ok ?e \<and> pbuf_take_ok ?e \<and> udp_sendto_ok ?e)"
    | (sent) b where "initialized ?s1" "udp ?s1 \<noteq> None" "?f = Some b"
        "pbuf_alloc_ok ?e" "pbuf_take_ok ?e" "udp_sendto_ok ?e"
    by (cases ?f) blast+
  then show "let e = emit_env_now sys;
           s1 = meanwhile e (logger_syslog sys);
           sys' = snd (logger_output level tag message sys);
           s' = logger_syslog sys'
       in if \<not> initialized s1 \<or> udp s1 = None then
            send_count s' = send_count s1 \<and> failed_count s' = failed_count s1 + 1 \<and>
            wire sys' = wire sys
          else
            (case syslog_format_msg s1 SYSLOG_MAX_MESSAGE_SIZE (rtc e) level tag message of
               None \<Rightarrow> send_count s' = send_count s1 \<and> failed_count s' = failed_count s1 + 1 \<and>
                       wire sys' = wire sys
             | Some buffer \<Rightarrow>
                 if pbuf_alloc_ok e \<and> pbuf_take_ok e \<and> udp_sendto_ok e then
                   send_count s' = send_count s1 + 1 \<and> failed_count s' = failed_count s1 \<and>
                   wire sys' = wire sys @ [(udp s1, buffer, server s1, port s1)]
                 else
                   send_count s' = send_count s1 \<and> failed_count s' = failed_count s1 + 1 \<and>
                   wire sys' = wire sys)"
  proof cases
    case recheck
    from logger_output_recheck [OF r le g this] recheck show ?thesis
      by (simp add: Let_def count_failure_def printf_fallback_def printf_def)
  next
    case nofmt
    from logger_output_format_failure [OF r le g this] nofmt show ?thesis
      by (simp add: Let_def count_failure_def)
  next
    case fail
    from logger_output_transport_failure [OF r le g this] fail show ?thesis
      by (simp add: Let_def count_failure_def)
  next
    case sent
    from logger_output_sent [OF r le g this] sent show ?thesis
      by (simp add: Let_def count_sent_def)
  qed
qed

text \<open>
  The claim as written (reset then get yields (0, 0), with no condition) fails in two
  ways. Before the first \<^verbatim>\<open>init_logger\<close> the mutex is still \<^verbatim>\<open>NULL\<close>: \<^verbatim>\<open>logger_get_stats\<close>
  returns at line 364 without writing its out-parameters, and the caller's 5 and 7 are
  still there. And after one record has been sent, a \<^verbatim>\<open>logger_reset_stats\<close> whose wait for
  the mutex times out resets nothing: the \<^verbatim>\<open>logger_get_stats\<close> that follows yields (1, 0).
\<close>

theorem stats_counting_counterexample:
  "logger_get_stats True (Some 5) (Some 7) (logger_reset_stats True (boot (\<lambda>k. cooperative)))
     = (Some 5, Some 7) \<and>
   logger_get_stats True (Some 5) (Some 7)
     (logger_reset_stats False
        (snd (logger_output LOG_LEVEL_INFO (Some ''A'') ''hello'' (ready (\<lambda>k. cooperative)))))
     = (Some 1, Some 0)"
  by (simp add: ready_emit_sent)
     (simp add: logger_get_stats_def logger_reset_stats_def boot_def logger_syslog_init_def
        ready_eq)

theorem stats_counting_witness:
  "logger_get_stats True (Some 5) (Some 7)
     (logger_reset_stats True (snd (logger_output LOG_LEVEL_INFO (Some ''A'') ''hello''
         (ready (\<lambda>k. cooperative))))) = (Some 0, Some 0) \<and>
   logger_get_stats False (Some 5) (Some 7)
     (logger_reset_stats True (snd (logger_output LOG_LEVEL_INFO (Some ''A'') ''hello''
         (ready (\<lambda>k. cooperative))))) = (Some 5, Some 7) \<and>
   logger_get_stats True (Some 5) (Some 7)
     (logger_reset_stats False (snd (logger_output LOG_LEVEL_INFO (Some ''A'') ''hello''
         (ready (\<lambda>k. cooperative\<lparr>udp_sendto_ok := False\<rparr>))))) = (Some 0, Some 1) \<and>
   send_count (logger_syslog (snd (logger_output LOG_LEVEL_INFO (Some ''A'') ''hello''
         (ready (\<lambda>k. cooperative))))) = 1 \<and>
   failed_count (logger_syslog (snd (logger_output LOG_LEVEL_INFO (Some ''A'') ''hello''
         (ready (\<lambda>k. cooperative\<lparr>meanwhile :=
            (\<lambda>s. s\<lparr>initialized := False, udp := None\<rparr>)\<rparr>))))) = 1"
proof -
  let ?g = "\<lambda>k::nat. cooperative\<lparr>meanwhile := (\<lambda>s. s\<lparr>initialized := False, udp := None\<rparr>)\<rparr>"
  let ?h = "\<lambda>k::nat. cooperative\<lparr>udp_sendto_ok := False\<rparr>"
  let ?sent = "snd (logger_output LOG_LEVEL_INFO (Some ''A'') ''hello'' (ready (\<lambda>k. cooperative)))"
  let ?failed = "snd (logger_output LOG_LEVEL_INFO (Some ''A'') ''hello'' (ready ?h))"
  have m: "mutex (logger_syslog ?sent) \<noteq> None"
    by (simp add: ready_emit_sent) (simp add: ready_eq)
  have a: "transport_ready (logger_syslog (ready f)) \<and>
      LOG_LEVEL_INFO \<le> min_level (logger_syslog (ready f))" for f
    by (simp add: ready_eq transport_ready_def level_defs)
  have f: "syslog_format_msg (logger_syslog (ready ?h)) SYSLOG_MAX_MESSAGE_SIZE
      (Some (26, 10, 30, 12, 0, 5)) LOG_LEVEL_INFO (Some ''A'') ''hello''
      = Some ''<14>2026-10-30 12:00:05 craner logger[A]: hello''"
    by (rule fmt_eval)
  have fl: "logger_syslog ?failed = (logger_syslog (ready ?h))\<lparr>failed_count := 1\<rparr>"
    using logger_output_transport_failure [of "ready ?h" LOG_LEVEL_INFO "Some ''A''" "''hello''"
        "''<14>2026-10-30 12:00:05 craner logger[A]: hello''"] a [of ?h] f
    by (simp add: emit_env_now_ready cooperative_def count_failure_def) (simp add: ready_eq)
  have 1: "logger_get_stats True (Some 5) (Some 7) (logger_reset_stats True ?sent)
      = (Some 0, Some 0)"
    using stats_counting [of ?sent 5 7] m by blast
  have 2: "logger_get_stats False (Some 5) (Some 7) (logger_reset_stats True ?sent)
      = (Some 5, Some 7)"
    using stats_counting [of ?sent 5 7 False True] by simp
  have 3: "logger_get_stats True (Some 5) (Some 7) (logger_reset_stats False ?failed)
      = (Some 0, Some 1)"
    using stats_counting [of ?failed 5 7 True False]
    by (simp add: fl) (simp add: ready_eq)
  have 4: "send_count (logger_syslog ?sent) = 1"
    using stats_counting [of "ready (\<lambda>k. cooperative)" 5 7 True True LOG_LEVEL_INFO
        "Some ''A''" "''hello''"]
      a [of "\<lambda>k. cooperative"] fmt_eval [of "\<lambda>k. cooperative"]
    by (simp add: emit_env_now_ready cooperative_def Let_def) (simp add: ready_eq)
  have 5: "failed_count (logger_syslog (snd (logger_output LOG_LEVEL_INFO (Some ''A'') ''hello''
         (ready ?g)))) = 1"
    using stats_counting [of "ready ?g" 5 7 True True LOG_LEVEL_INFO "Some ''A''" "''hello''"]
      a [of ?g]
    by (simp add: emit_env_now_ready cooperative_def Let_def) (simp add: ready_eq)
  from 1 2 3 4 5 show ?thesis by simp
qed

subsection \<open>The line accumulator: what the steps keep\<close>

lemma logger_output_frame:
  "line_buf (snd (logger_output l t m sys)) = line_buf sys"
  "cur_level (snd (logger_output l t m sys)) = cur_level sys"
  "cur_tag (snd (logger_output l t m sys)) = cur_tag sys"
  "line_mutex (snd (logger_output l t m sys)) = line_mutex sys"
  "future (snd (logger_output l t m sys)) = future sys"
  "emit_log (snd (logger_output l t m sys)) = emit_log sys @ [(l, t, m)]"
  by (simp_all add: logger_output_def Let_def printf_fallback_def printf_def
      split: option.splits)

lemma and_emit_frame:
  "line_buf (snd (and_emit l t m st)) = line_buf (snd st)"
  "cur_level (snd (and_emit l t m st)) = cur_level (snd st)"
  "cur_tag (snd (and_emit l t m st)) = cur_tag (snd st)"
  "line_mutex (snd (and_emit l t m st)) = line_mutex (snd st)"
  "emit_log (snd (and_emit l t m st)) = emit_log (snd st) @ (if fst st then [(l, Some t, m)] else [])"
  by (cases st; simp add: and_emit_def logger_output_frame)+

lemma and_emit_False: "fst (and_emit l t m (False, sys)) = False"
  by (simp add: and_emit_def)

declare line_loop.simps [simp del] flush_slices.simps [simp del]

lemma line_loop_Nil [simp]: "line_loop level tag [] st = st"
  by (simp add: line_loop.simps)

lemma line_loop_no_nl:
  assumes "p \<noteq> []" and "\<forall>c\<in>set p. \<not> is_nl c"
  shows "line_loop level tag p st = take_segment level tag p st"
proof -
  from assms(2) have tw: "takeWhile (\<lambda>c. \<not> is_nl c) p = p"
    and dw: "dropWhile (\<lambda>c. \<not> is_nl c) p = []"
    by simp_all
  show ?thesis
    by (subst line_loop.simps) (simp add: Let_def tw dw assms(1))
qed

lemma line_loop_nl:
  assumes "\<forall>c\<in>set a. \<not> is_nl c" and "is_nl c"
  shows "line_loop level tag (a @ c # rest) st =
         line_loop level tag (skip_terminator (c # rest)) (flush_line (take_segment level tag a st))"
proof -
  from assms have tw: "takeWhile (\<lambda>c. \<not> is_nl c) (a @ c # rest) = a"
    and dw: "dropWhile (\<lambda>c. \<not> is_nl c) (a @ c # rest) = c # rest"
    by simp_all
  show ?thesis
    by (subst line_loop.simps) (simp add: Let_def tw dw)
qed

lemma flush_slices_fits:
  "length chunk \<le> 1023 \<Longrightarrow> flush_slices level tag chunk st = (chunk, st)"
  by (subst flush_slices.simps) (simp add: SYSLOG_MAX_MESSAGE_SIZE_def)

lemma make_room_fits:
  "length (line_buf sys) + length chunk \<le> 1023 \<Longrightarrow>
   make_room level tag chunk (ok, sys) = (chunk, ok, sys)"
proof -
  assume "length (line_buf sys) + length chunk \<le> 1023"
  then have "\<not> length chunk > SYSLOG_MAX_MESSAGE_SIZE - 1 - length (line_buf sys)"
    by (simp add: SYSLOG_MAX_MESSAGE_SIZE_def)
  then show ?thesis
    by (simp add: make_room_def Let_def)
qed



lemma take_segment_prep:
  "take_segment level tag chunk st = append_chunk (make_room level tag chunk (prep level tag st))"
  by (simp add: take_segment_def prep_def)

lemma attrs_changed_frame:
  "cur_level sys' = cur_level sys \<Longrightarrow> cur_tag sys' = cur_tag sys \<Longrightarrow>
   attrs_changed level tag sys' = attrs_changed level tag sys"
  by (cases tag) (simp_all add: attrs_changed_def)

lemma attrs_changed_adopted:
  "short_tag tag \<Longrightarrow>
   \<not> attrs_changed level tag (sys\<lparr>cur_level := level, cur_tag := take 47 (use_tag tag)\<rparr>)"
  by (cases tag) (simp_all add: attrs_changed_def short_tag_def use_tag_def)

text \<open>What the preparation of a segment leaves: case with flush, case without.\<close>

lemma prep_flush:
  assumes "line_buf sys \<noteq> []" and "attrs_changed level tag sys"
  shows "prep level tag (ok, sys) =
     (fst (and_emit (cur_level sys) (if cur_tag sys \<noteq> [] then cur_tag sys else use_tag tag)
             (line_buf sys) (ok, sys)),
      (snd (and_emit (cur_level sys) (if cur_tag sys \<noteq> [] then cur_tag sys else use_tag tag)
             (line_buf sys) (ok, sys)))
        \<lparr>line_buf := [], cur_tag := [], cur_level := level, cur_tag := take 47 (use_tag tag)\<rparr>)"
  using assms
  by (simp add: prep_def flush_on_attr_change_def adopt_attrs_def split_beta)

lemma prep_keep:
  assumes "line_buf sys \<noteq> []" and "\<not> attrs_changed level tag sys"
  shows "prep level tag (ok, sys) = (ok, sys)"
  using assms
  by (simp add: prep_def flush_on_attr_change_def adopt_attrs_def)

lemma prep_empty:
  assumes "line_buf sys = []"
  shows "prep level tag (ok, sys) =
     (ok, sys\<lparr>cur_level := level, cur_tag := take 47 (use_tag tag)\<rparr>)"
  using assms
  by (simp add: prep_def flush_on_attr_change_def adopt_attrs_def)

lemma prep_line_buf:
  "line_buf (snd (prep level tag (ok, sys))) =
     (if attrs_changed level tag sys then [] else line_buf sys)"
  by (cases "line_buf sys = []"; cases "attrs_changed level tag sys")
     (simp_all add: prep_flush prep_keep prep_empty)

lemma prep_not_changed:
  assumes "short_tag tag"
  shows "\<not> attrs_changed level tag (snd (prep level tag (ok, sys)))"
proof (cases "line_buf sys = []")
  case True
  then show ?thesis
    using attrs_changed_adopted [OF assms] by (simp add: prep_empty)
next
  case False
  show ?thesis
  proof (cases "attrs_changed level tag sys")
    case True
    have "attrs_changed level tag
        ((snd (and_emit (cur_level sys) (if cur_tag sys \<noteq> [] then cur_tag sys else use_tag tag)
             (line_buf sys) (ok, sys)))
        \<lparr>line_buf := [], cur_tag := [], cur_level := level, cur_tag := take 47 (use_tag tag)\<rparr>)
      = attrs_changed level tag
          (sys\<lparr>cur_level := level, cur_tag := take 47 (use_tag tag)\<rparr>)"
      by (rule attrs_changed_frame) simp_all
    with attrs_changed_adopted [OF assms] show ?thesis
      using False True by (simp add: prep_flush)
  next
    case f: False
    with False show ?thesis by (simp add: prep_keep)
  qed
qed

lemma append_prepared:
  assumes "length (line_buf (snd (prep level tag st))) + length chunk \<le> 1023"
  shows "take_segment level tag chunk st =
     (fst (prep level tag st),
      (snd (prep level tag st))\<lparr>line_buf := line_buf (snd (prep level tag st)) @ chunk\<rparr>)"
proof -
  obtain ok1 sys1 where p: "prep level tag st = (ok1, sys1)"
    by (cases "prep level tag st")
  with assms have "length (line_buf sys1) + length chunk \<le> 1023"
    by simp
  then show ?thesis
    by (simp add: take_segment_prep p make_room_fits append_chunk_def)
qed

lemma append_fits:
  assumes "length (line_buf sys) + length chunk \<le> 1023"
  shows "take_segment level tag chunk (ok, sys) =
     (fst (prep level tag (ok, sys)),
      (snd (prep level tag (ok, sys)))
        \<lparr>line_buf := line_buf (snd (prep level tag (ok, sys))) @ chunk\<rparr>)"
  using assms
  by (intro append_prepared) (simp add: prep_line_buf)

lemma take_segment_append:
  assumes "short_tag tag" and "x \<noteq> []"
    and "length (line_buf (snd st)) + length x + length y \<le> 1023"
  shows "take_segment level tag (x @ y) st
       = take_segment level tag y (take_segment level tag x st)"
proof -
  obtain ok sys where st: "st = (ok, sys)" by (cases st)
  obtain ok1 sys1 where p: "prep level tag (ok, sys) = (ok1, sys1)"
    by (cases "prep level tag (ok, sys)")
  have l1: "line_buf sys1 = (if attrs_changed level tag sys then [] else line_buf sys)"
    using prep_line_buf [of level tag ok sys] p by simp
  have nc: "\<not> attrs_changed level tag sys1"
    using prep_not_changed [OF assms(1), of level ok sys] p by simp
  let ?mid = "sys1\<lparr>line_buf := line_buf sys1 @ x\<rparr>"
  have nc': "\<not> attrs_changed level tag ?mid"
    using nc by (simp add: attrs_changed_frame [of ?mid sys1])
  have 1: "take_segment level tag x (ok, sys) = (ok1, ?mid)"
    using assms(3) by (subst append_fits) (simp_all add: st p)
  have 2: "take_segment level tag (x @ y) (ok, sys)
         = (ok1, sys1\<lparr>line_buf := line_buf sys1 @ x @ y\<rparr>)"
    using assms(3) by (subst append_fits) (simp_all add: st p)
  have "length (line_buf ?mid) + length y \<le> 1023"
    using assms(3) l1 by (simp add: st split: if_splits)
  then have 3: "take_segment level tag y (ok1, ?mid)
         = (ok1, ?mid\<lparr>line_buf := line_buf ?mid @ y\<rparr>)"
    using assms(2) nc' by (subst append_fits) (simp_all add: prep_keep)
  show ?thesis
    by (simp add: st 1 2 3)
qed


lemma flush_line_empty: "line_buf (snd (flush_line st)) = []"
  by (cases st) (simp add: flush_line_def split_beta)

lemma skip_terminator_shorter: "nl \<noteq> [] \<Longrightarrow> length (skip_terminator nl) < length nl"
  by (induction nl rule: skip_terminator.induct) auto

lemma skip_terminator_last:
  "skip_terminator nl \<noteq> [] \<Longrightarrow> last (skip_terminator nl) = last nl"
  by (induction nl rule: skip_terminator.induct) (auto split: if_splits)

lemma skip_terminator_append:
  "nl \<noteq> [] \<Longrightarrow> \<not> splits_pair nl b \<Longrightarrow> skip_terminator (nl @ b) = skip_terminator nl @ b"
proof (induction nl rule: skip_terminator.induct)
  case (1 a b' rest)
  then show ?case by simp
next
  case (2 a)
  then show ?case by (cases b) (auto simp add: splits_pair_def)
next
  case 3
  then show ?case by simp
qed

lemma splits_pair_suffix:
  "\<not> splits_pair (chunk @ nl) b \<Longrightarrow> nl \<noteq> [] \<Longrightarrow> \<not> splits_pair nl b"
  by (simp add: splits_pair_def)

lemma splits_pair_skip:
  "\<not> splits_pair nl b \<Longrightarrow> \<not> splits_pair (skip_terminator nl) b"
  using skip_terminator_last [of nl]
  by (cases "nl = []") (auto simp add: splits_pair_def)

lemma line_loop_append:
  assumes tg: "short_tag tag"
  shows "length (line_buf (snd st)) + length a + length b \<le> 1023 \<Longrightarrow> \<not> splits_pair a b \<Longrightarrow>
         line_loop level tag (a @ b) st = line_loop level tag b (line_loop level tag a st)"
proof (induction "length a" arbitrary: a st rule: less_induct)
  case less
  let ?P = "\<lambda>c. \<not> is_nl c"
  show ?case
  proof (cases "a = []")
    case True
    then show ?thesis by simp
  next
    case ne: False
    show ?thesis
    proof (cases "dropWhile ?P a")
      case Nil
      then have all: "\<forall>c\<in>set a. \<not> is_nl c"
        by (simp add: dropWhile_eq_Nil_conv)
      show ?thesis
      proof (cases "b = []")
        case True
        then show ?thesis by simp
      next
        case bne: False
        have tw: "takeWhile ?P (a @ b) = a @ takeWhile ?P b"
          and dw: "dropWhile ?P (a @ b) = dropWhile ?P b"
          using all by simp_all
        have "length (takeWhile ?P b) \<le> length b"
          by (rule length_takeWhile_le)
        with less.prems(1)
        have "length (line_buf (snd st)) + length a + length (takeWhile ?P b) \<le> 1023"
          by simp
        note seg = take_segment_append [OF tg ne this, of level]
        have l: "line_loop level tag (a @ b) st =
            (if dropWhile ?P b = [] then take_segment level tag (a @ takeWhile ?P b) st
             else line_loop level tag (skip_terminator (dropWhile ?P b))
                    (flush_line (take_segment level tag (a @ takeWhile ?P b) st)))"
          using ne by (subst line_loop.simps) (simp add: Let_def tw dw)
        have r: "line_loop level tag b (take_segment level tag a st) =
            (if dropWhile ?P b = []
             then take_segment level tag (takeWhile ?P b) (take_segment level tag a st)
             else line_loop level tag (skip_terminator (dropWhile ?P b))
                    (flush_line (take_segment level tag (takeWhile ?P b)
                       (take_segment level tag a st))))"
          using bne by (subst line_loop.simps) (simp add: Let_def)
        show ?thesis
          by (simp only: l r seg line_loop_no_nl [OF ne all])
      qed
    next
      case (Cons c rest)
      have c: "is_nl c"
        using hd_dropWhile [of ?P a] Cons by simp
      have a: "a = takeWhile ?P a @ c # rest"
        using takeWhile_dropWhile_id [of ?P a] Cons by simp
      have chunk: "\<forall>x\<in>set (takeWhile ?P a). \<not> is_nl x"
        by (auto dest: set_takeWhileD)
      let ?st' = "flush_line (take_segment level tag (takeWhile ?P a) st)"
      let ?a' = "skip_terminator (c # rest)"
      have l: "line_loop level tag a st = line_loop level tag ?a' ?st'"
        by (subst a) (rule line_loop_nl [OF chunk c])
      have nsp: "\<not> splits_pair (c # rest) b"
        using less.prems(2) by (subst (asm) a) (rule splits_pair_suffix, simp_all)
      have "a @ b = takeWhile ?P a @ c # (rest @ b)"
        by (subst a) simp
      then have "line_loop level tag (a @ b) st
          = line_loop level tag (skip_terminator (c # (rest @ b))) ?st'"
        by (simp only: line_loop_nl [OF chunk c])
      also have "skip_terminator (c # (rest @ b)) = ?a' @ b"
        using skip_terminator_append [OF _ nsp] by simp
      finally have r: "line_loop level tag (a @ b) st = line_loop level tag (?a' @ b) ?st'" .
      have "length ?a' < length (c # rest)"
        by (rule skip_terminator_shorter) simp
      also have "\<dots> \<le> length a"
        using length_dropWhile_le [of ?P a] Cons by simp
      finally have shorter: "length ?a' < length a" .
      have fits: "length (line_buf (snd ?st')) + length ?a' + length b \<le> 1023"
        using less.prems(1) shorter by (simp add: flush_line_empty)
      from less.hyps [OF shorter fits splits_pair_skip [OF nsp]] show ?thesis
        by (simp only: l r)
    qed
  qed
qed


subsection \<open>What the loop keeps\<close>

lemma line_loop_rel:
  fixes R :: "system \<Rightarrow> system \<Rightarrow> bool"
  assumes refl: "\<And>sys. R sys sys"
    and trans: "\<And>x y z. R x y \<Longrightarrow> R y z \<Longrightarrow> R x z"
    and emit: "\<And>l t m sys. R sys (snd (logger_output l t m sys))"
    and buf: "\<And>sys x. R sys (sys\<lparr>line_buf := x\<rparr>)"
    and ctag: "\<And>sys x. R sys (sys\<lparr>cur_tag := x\<rparr>)"
    and clev: "\<And>sys x. R sys (sys\<lparr>cur_level := x\<rparr>)"
  shows "R (snd st) (snd (line_loop level tag p st))"
proof -
  have e: "R sys (snd (and_emit l t m (ok, sys)))" for l t m ok sys
    by (simp add: and_emit_def emit refl)
  have b1: "R x (y\<lparr>line_buf := u\<rparr>)" if "R x y" for x y u
    by (rule trans [OF that buf])
  have b2: "R x (y\<lparr>line_buf := u, cur_tag := v\<rparr>)" if "R x y" for x y u v
    by (rule trans [OF b1 [OF that] ctag])
  have c2: "R x (y\<lparr>cur_level := u, cur_tag := v\<rparr>)" if "R x y" for x y u v
    by (rule trans [OF trans [OF that clev] ctag])
  have fa: "R (snd st) (snd (flush_on_attr_change level tag st))" for level tag st
    by (cases st) (simp add: flush_on_attr_change_def split_beta refl b2 e)
  have ad: "R (snd st) (snd (adopt_attrs level tag st))" for level tag st
    by (cases st) (simp add: adopt_attrs_def refl c2)
  have sl: "R (snd st) (snd (snd (flush_slices level tag chunk st)))" for level tag chunk st
  proof (induction level tag chunk st rule: flush_slices.induct)
    case (1 level tag chunk st)
    obtain ok sys where st: "st = (ok, sys)" by (cases st)
    show ?case
    proof (cases "length chunk > SYSLOG_MAX_MESSAGE_SIZE - 1")
      case True
      have "R (snd st) (snd (and_emit level (use_tag tag)
          (take (SYSLOG_MAX_MESSAGE_SIZE - 1) chunk) st))"
        by (simp add: st e)
      from trans [OF this "1.IH" [OF True]] True show ?thesis
        by (subst flush_slices.simps) simp
    next
      case False
      then show ?thesis
        by (subst flush_slices.simps) (simp add: refl)
    qed
  qed
  have mr: "R (snd st) (snd (snd (make_room level tag chunk st)))" for level tag chunk st
  proof (cases st)
    case (Pair ok sys)
    let ?fl = "case and_emit (cur_level sys) (cur_tag sys) (line_buf sys) (ok, sys) of
        (ok', sys') \<Rightarrow> (ok', sys'\<lparr>line_buf := []\<rparr>)"
    have 1: "R sys (snd ?fl)"
      by (simp add: split_beta b1 e)
    have 2: "R sys (snd (snd (flush_slices level tag chunk ?fl)))"
      by (rule trans [OF 1 sl])
    have 3: "R sys (snd (snd (flush_slices level tag chunk (ok, sys))))"
      using sl [of "(ok, sys)" level tag chunk] by simp
    show ?thesis
      using 2 3 by (simp add: Pair make_room_def Let_def refl)
  qed
  have ap: "R (snd (snd cst)) (snd (append_chunk cst))" for cst
    by (cases cst) (auto simp add: append_chunk_def buf)
  have ts: "R (snd st) (snd (take_segment level tag chunk st))" for level tag chunk st
    unfolding take_segment_def
    by (rule trans [OF fa], rule trans [OF ad], rule trans [OF mr], rule ap)
  have fl: "R (snd st) (snd (flush_line st))" for st
    by (cases st) (simp add: flush_line_def split_beta b2 e)
  show ?thesis
  proof (induction level tag p st rule: line_loop.induct)
    case (1 level tag p st)
    show ?case
    proof (cases "p = []")
      case True
      then show ?thesis by (simp add: refl)
    next
      case ne: False
      show ?thesis
      proof (cases "dropWhile (\<lambda>c. \<not> is_nl c) p = []")
        case True
        with ne show ?thesis
          by (subst line_loop.simps) (simp add: Let_def ts)
      next
        case False
        from "1.IH" [OF ne HOL.refl HOL.refl HOL.refl False]
        have "R (snd (flush_line (take_segment level tag (takeWhile (\<lambda>c. \<not> is_nl c) p) st)))
            (snd (line_loop level tag (skip_terminator (dropWhile (\<lambda>c. \<not> is_nl c) p))
               (flush_line (take_segment level tag (takeWhile (\<lambda>c. \<not> is_nl c) p) st))))" .
        then have "R (snd st)
            (snd (line_loop level tag (skip_terminator (dropWhile (\<lambda>c. \<not> is_nl c) p))
               (flush_line (take_segment level tag (takeWhile (\<lambda>c. \<not> is_nl c) p) st))))"
          by (rule trans [OF trans [OF ts fl]])
        with ne False show ?thesis
          by (subst line_loop.simps) (auto simp add: Let_def)
      qed
    qed
  qed
qed

lemma line_loop_line_mutex:
  "line_mutex (snd (line_loop level tag p st)) = line_mutex (snd st)"
  by (rule line_loop_rel [where R = "\<lambda>s s'. line_mutex s' = line_mutex s"])
     (simp_all add: logger_output_frame)

lemma line_loop_emit_log:
  "\<exists>rest. emit_log (snd (line_loop level tag p st)) = emit_log (snd st) @ rest"
  by (rule line_loop_rel [where R = "\<lambda>s s'. \<exists>rest. emit_log s' = emit_log s @ rest"])
     (auto simp add: logger_output_frame)


text \<open>The state in which the loop starts: \<^verbatim>\<open>line_mutex\<close> created when it was \<^verbatim>\<open>NULL\<close>.\<close>

lemma logger_printf_line_loop:
  assumes "line_guard_ok env sys"
  shows "logger_printf_line env level tag (Some (Rendered r)) sys =
         line_loop level tag (take 255 r)
           (True, if line_mutex sys = None then sys\<lparr>line_mutex := line_mutex_create env\<rparr>
                  else sys)"
  using assms
  by (auto simp add: logger_printf_line_def line_guard_ok_def Let_def)

lemma two_calls:
  assumes tg: "short_tag tag"
    and fits: "length (line_buf sys) + length (a @ b) \<le> 1023"
    and tmp: "length (a @ b) \<le> 255"
    and pair: "\<not> splits_pair a b"
    and guard: "line_guard_ok env sys"
    and ok: "fst (logger_printf_line env level tag (Some (Rendered a)) sys)"
  shows "logger_printf_line env level tag (Some (Rendered b))
           (snd (logger_printf_line env level tag (Some (Rendered a)) sys))
         = logger_printf_line env level tag (Some (Rendered (a @ b))) sys"
proof -
  define sys1 where
    "sys1 = (if line_mutex sys = None then sys\<lparr>line_mutex := line_mutex_create env\<rparr> else sys)"
  define st2 where "st2 = line_loop level tag a (True, sys1)"
  have first: "logger_printf_line env level tag (Some (Rendered a)) sys = st2"
    using tmp by (simp add: logger_printf_line_loop [OF guard] sys1_def st2_def)
  have whole: "logger_printf_line env level tag (Some (Rendered (a @ b))) sys
      = line_loop level tag (a @ b) (True, sys1)"
    using tmp by (simp add: logger_printf_line_loop [OF guard] sys1_def)
  have m2: "line_mutex (snd st2) = line_mutex sys1"
    by (simp add: st2_def line_loop_line_mutex)
  have guard2: "line_guard_ok env (snd st2)"
    using guard by (auto simp add: line_guard_ok_def m2 sys1_def)
  have same: "(if line_mutex (snd st2) = None
               then (snd st2)\<lparr>line_mutex := line_mutex_create env\<rparr> else snd st2) = snd st2"
    using guard by (auto simp add: line_guard_ok_def m2 sys1_def)
  have st2: "st2 = (True, snd st2)"
    using ok by (simp add: first prod_eq_iff)
  have "logger_printf_line env level tag (Some (Rendered b)) (snd st2)
      = line_loop level tag b (True, snd st2)"
    using tmp by (simp add: logger_printf_line_loop [OF guard2] same)
  also have "\<dots> = line_loop level tag b (line_loop level tag a (True, sys1))"
    using st2 by (simp add: st2_def)
  also have "\<dots> = line_loop level tag (a @ b) (True, sys1)"
    using fits pair by (subst line_loop_append [OF tg]) (simp_all add: sys1_def)
  finally show ?thesis
    by (simp add: first whole)
qed


subsection \<open>Forced flush on a change of level or tag\<close>

lemma flush_on_attr_change_idem:
  "flush_on_attr_change level tag (flush_on_attr_change level tag st)
     = flush_on_attr_change level tag st"
  by (cases st) (simp add: flush_on_attr_change_def split_beta)

lemma line_loop_flush_first:
  assumes "p \<noteq> []"
  shows "line_loop level tag p (flush_on_attr_change level tag st) = line_loop level tag p st"
proof -
  have "take_segment level tag chunk (flush_on_attr_change level tag st)
      = take_segment level tag chunk st" for chunk
    by (simp add: take_segment_def flush_on_attr_change_idem)
  then show ?thesis
    using assms
    by (subst (1 2) line_loop.simps) (simp add: Let_def)
qed

lemma attr_flush_first:
  assumes pending: "line_buf sys \<noteq> []"
    and changed: "attrs_changed level tag sys"
    and nonempty: "r \<noteq> []"
    and guard: "line_guard_ok env sys"
  shows "(\<exists>rest. emit_log (snd (logger_printf_line env level tag (Some (Rendered r)) sys))
            = emit_log sys @
              (cur_level sys, Some (if cur_tag sys \<noteq> [] then cur_tag sys else use_tag tag),
               line_buf sys) # rest) \<and>
         logger_printf_line env level tag (Some (Rendered r)) sys
           = line_loop level tag (take 255 r)
               (case logger_output (cur_level sys)
                       (Some (if cur_tag sys \<noteq> [] then cur_tag sys else use_tag tag))
                       (line_buf sys)
                       (if line_mutex sys = None then sys\<lparr>line_mutex := line_mutex_create env\<rparr>
                        else sys) of
                  (ok, sys') \<Rightarrow> (ok, sys'\<lparr>line_buf := [], cur_tag := []\<rparr>))"
proof -
  define sys1 where
    "sys1 = (if line_mutex sys = None then sys\<lparr>line_mutex := line_mutex_create env\<rparr> else sys)"
  define ptag where "ptag = (if cur_tag sys \<noteq> [] then cur_tag sys else use_tag tag)"
  define flushed where
    "flushed = (case logger_output (cur_level sys) (Some ptag) (line_buf sys) sys1 of
                  (ok, sys') \<Rightarrow> (ok, sys'\<lparr>line_buf := [], cur_tag := []\<rparr>))"
  have s1: "line_buf sys1 = line_buf sys" "cur_tag sys1 = cur_tag sys"
    "cur_level sys1 = cur_level sys" "emit_log sys1 = emit_log sys"
    by (simp_all add: sys1_def)
  have ch1: "attrs_changed level tag sys1"
    using changed attrs_changed_frame [of sys1 sys level tag] by (simp add: s1)
  have fl: "flush_on_attr_change level tag (True, sys1) = flushed"
    using pending ch1
    by (simp add: flush_on_attr_change_def and_emit_def s1 flushed_def ptag_def)
  have ne: "take 255 r \<noteq> []"
    using nonempty by (cases r) simp_all
  have "logger_printf_line env level tag (Some (Rendered r)) sys
      = line_loop level tag (take 255 r) (True, sys1)"
    unfolding sys1_def by (rule logger_printf_line_loop [OF guard])
  then have eq: "logger_printf_line env level tag (Some (Rendered r)) sys
      = line_loop level tag (take 255 r) flushed"
    using line_loop_flush_first [OF ne, of level tag "(True, sys1)"]
    by (simp add: fl)
  have "emit_log (snd flushed) = emit_log sys @ [(cur_level sys, Some ptag, line_buf sys)]"
    by (simp add: flushed_def split_beta logger_output_frame s1)
  with line_loop_emit_log [of level tag "take 255 r" flushed]
  have "\<exists>rest. emit_log (snd (line_loop level tag (take 255 r) flushed))
      = emit_log sys @ (cur_level sys, Some ptag, line_buf sys) # rest"
    by auto
  with eq show ?thesis
    by (simp add: flushed_def ptag_def sys1_def)
qed

subsection \<open>A single call with a long message\<close>

lemma and_emit_True:
  "and_emit l t m (True, sys) = logger_output l (Some t) m sys"
  by (simp add: and_emit_def)

lemma single_call_no_terminator:
  assumes noterm: "\<forall>c\<in>set r. \<not> is_nl c"
    and guard: "line_guard_ok env sys"
  shows "(let sys' = snd (logger_printf_line env level tag (Some (Rendered r)) sys) in
          if r = [] \<or> line_buf sys = [] \<or>
             (\<not> attrs_changed level tag sys \<and> length (line_buf sys) + length (take 255 r) \<le> 1023)
          then emit_log sys' = emit_log sys \<and> line_buf sys' = line_buf sys @ take 255 r
          else emit_log sys' = emit_log sys @
                 [(cur_level sys,
                   Some (if attrs_changed level tag sys \<and> cur_tag sys = [] then use_tag tag
                         else cur_tag sys),
                   line_buf sys)] \<and>
               line_buf sys' = take 255 r)"
proof -
  define sys1 where
    "sys1 = (if line_mutex sys = None then sys\<lparr>line_mutex := line_mutex_create env\<rparr> else sys)"
  have s1: "line_buf sys1 = line_buf sys" "cur_tag sys1 = cur_tag sys"
    "cur_level sys1 = cur_level sys" "emit_log sys1 = emit_log sys"
    by (simp_all add: sys1_def)
  have ch1: "attrs_changed level tag sys1 = attrs_changed level tag sys"
    by (rule attrs_changed_frame) (simp_all add: s1)
  let ?t = "take 255 r"
  have len: "length ?t \<le> 255" by simp
  have call: "logger_printf_line env level tag (Some (Rendered r)) sys
      = line_loop level tag ?t (True, sys1)"
    unfolding sys1_def by (rule logger_printf_line_loop [OF guard])
  show ?thesis
  proof (cases "r = []")
    case True
    with call show ?thesis by (simp add: s1 Let_def)
  next
    case rne: False
    then have tne: "?t \<noteq> []" by (cases r) simp_all
    have "\<forall>c\<in>set ?t. \<not> is_nl c"
      using noterm by (auto dest: in_set_takeD)
    note seg = line_loop_no_nl [OF tne this, of level tag "(True, sys1)"]
    show ?thesis
    proof (cases "line_buf sys = []")
      case True
      then show ?thesis
        using rne by (simp add: Let_def call seg append_fits s1 prep_empty)
    next
      case pending: False
      show ?thesis
      proof (cases "attrs_changed level tag sys")
        case True
        then show ?thesis
          using rne pending
          by (simp add: Let_def call seg append_prepared s1 ch1 prep_flush and_emit_True
              logger_output_frame)
      next
        case same: False
        show ?thesis
        proof (cases "length (line_buf sys) + length ?t \<le> 1023")
          case True
          then show ?thesis
            using rne pending same
            by (simp add: Let_def call seg append_fits s1 ch1 prep_keep)
        next
          case False
          have ar: "\<not> L + T \<le> 1023 \<Longrightarrow> 0 < T \<Longrightarrow> 1024 - 1 - L < T" for L T :: nat
            by arith
          from tne have "0 < length ?t"
            by blast
          from ar [OF False this]
          have over: "SYSLOG_MAX_MESSAGE_SIZE - 1 - length (line_buf sys1) < length ?t"
            unfolding SYSLOG_MAX_MESSAGE_SIZE_def s1 .
          have "take_segment level tag ?t (True, sys1)
              = append_chunk (?t,
                  fst (logger_output (cur_level sys) (Some (cur_tag sys)) (line_buf sys) sys1),
                  (snd (logger_output (cur_level sys) (Some (cur_tag sys)) (line_buf sys) sys1))
                    \<lparr>line_buf := []\<rparr>)"
            using pending same over len
            by (simp add: take_segment_prep prep_keep s1 ch1 make_room_def Let_def and_emit_True
                split_beta flush_slices_fits)
          then show ?thesis
            using rne pending same False
            by (simp add: Let_def call seg append_chunk_def logger_output_frame s1)
        qed
      qed
    qed
  qed
qed

subsection \<open>Bytes that reach the accumulator\<close>

lemma emitted_bytes_and_emit:
  "emitted_bytes (snd (and_emit l t m st))
     = emitted_bytes (snd st) + (if fst st then length m else 0)"
  by (simp add: emitted_bytes_def and_emit_frame)

lemma emitted_bytes_upd [simp]:
  "emitted_bytes (sys\<lparr>line_buf := x\<rparr>) = emitted_bytes sys"
  "emitted_bytes (sys\<lparr>cur_tag := y\<rparr>) = emitted_bytes sys"
  "emitted_bytes (sys\<lparr>cur_level := z\<rparr>) = emitted_bytes sys"
  "emitted_bytes (sys\<lparr>line_mutex := m\<rparr>) = emitted_bytes sys"
  by (simp_all add: emitted_bytes_def)

lemma prep_bytes:
  "emitted_bytes (snd (prep level tag st)) + length (line_buf (snd (prep level tag st)))
     \<le> emitted_bytes (snd st) + length (line_buf (snd st))"
proof -
  obtain ok sys where st: "st = (ok, sys)" by (cases st)
  show ?thesis
    by (cases "line_buf sys = []"; cases "attrs_changed level tag sys")
       (simp_all add: st prep_empty prep_flush prep_keep emitted_bytes_and_emit)
qed

lemma flush_slices_step:
  "length chunk > 1023 \<Longrightarrow>
   flush_slices level tag chunk st
     = flush_slices level tag (drop 1023 chunk) (and_emit level (use_tag tag) (take 1023 chunk) st)"
  by (subst flush_slices.simps) (simp add: SYSLOG_MAX_MESSAGE_SIZE_def)

lemma flush_slices_line_buf:
  "line_buf (snd (snd (flush_slices level tag chunk st))) = line_buf (snd st)"
proof (induction "length chunk" arbitrary: chunk st rule: less_induct)
  case less
  show ?case
  proof (cases "length chunk > 1023")
    case True
    then have "length (drop 1023 chunk) < length chunk" by simp
    from less [OF this] True show ?thesis
      by (simp add: flush_slices_step and_emit_frame)
  next
    case False
    then show ?thesis by (simp add: flush_slices_fits)
  qed
qed

lemma flush_slices_rest:
  "length chunk > 1023 \<Longrightarrow> length (fst (flush_slices level tag chunk st)) \<le> 1023"
proof (induction "length chunk" arbitrary: chunk st rule: less_induct)
  case less
  from less.prems have shorter: "length (drop 1023 chunk) < length chunk" by simp
  show ?case
  proof (cases "length (drop 1023 chunk) > 1023")
    case True
    from less.hyps [OF shorter True] less.prems show ?thesis
      by (simp only: flush_slices_step)
  next
    case False
    then have "length (drop 1023 chunk) \<le> 1023" by simp
    with less.prems show ?thesis
      by (simp only: flush_slices_step flush_slices_fits fst_conv)
  qed
qed

lemma flush_slices_bytes:
  "length (fst (flush_slices level tag chunk st))
      + emitted_bytes (snd (snd (flush_slices level tag chunk st)))
     \<le> length chunk + emitted_bytes (snd st)"
proof (induction "length chunk" arbitrary: chunk st rule: less_induct)
  case less
  show ?case
  proof (cases "length chunk > 1023")
    case True
    let ?st' = "and_emit level (use_tag tag) (take 1023 chunk) st"
    from True have shorter: "length (drop 1023 chunk) < length chunk" by simp
    have e: "emitted_bytes (snd ?st') \<le> emitted_bytes (snd st) + 1023"
      by (simp add: emitted_bytes_and_emit)
    have d: "length (drop 1023 chunk) + 1023 = length chunk"
      using True by simp
    from less [OF shorter, of ?st'] e d show ?thesis
      unfolding flush_slices_step [OF True] by linarith
  next
    case False
    then show ?thesis by (simp add: flush_slices_fits)
  qed
qed

lemma make_room_bytes:
  "length (fst (make_room level tag chunk st))
      + emitted_bytes (snd (snd (make_room level tag chunk st)))
      + length (line_buf (snd (snd (make_room level tag chunk st))))
     \<le> length chunk + emitted_bytes (snd st) + length (line_buf (snd st))"
proof -
  obtain ok sys where st: "st = (ok, sys)" by (cases st)
  let ?fl = "case and_emit (cur_level sys) (cur_tag sys) (line_buf sys) (ok, sys) of
        (ok', sys') \<Rightarrow> (ok', sys'\<lparr>line_buf := []\<rparr>)"
  have fl: "emitted_bytes (snd ?fl) \<le> emitted_bytes sys + length (line_buf sys)"
    "line_buf (snd ?fl) = []"
    by (simp_all add: split_beta emitted_bytes_and_emit)
  show ?thesis
    using flush_slices_bytes [of level tag chunk ?fl]
      flush_slices_bytes [of level tag chunk "(ok, sys)"] fl
    by (simp add: st make_room_def Let_def flush_slices_line_buf)
qed

lemma make_room_bounded:
  assumes "length (line_buf (snd st)) \<le> 1023"
  shows "length (fst (make_room level tag chunk st))
      + length (line_buf (snd (snd (make_room level tag chunk st)))) \<le> 1023"
proof -
  obtain ok sys where st: "st = (ok, sys)" by (cases st)
  let ?fl = "case and_emit (cur_level sys) (cur_tag sys) (line_buf sys) (ok, sys) of
        (ok', sys') \<Rightarrow> (ok', sys'\<lparr>line_buf := []\<rparr>)"
  have fl: "line_buf (snd ?fl) = []"
    by (simp add: split_beta)
  show ?thesis
  proof (cases "length chunk > SYSLOG_MAX_MESSAGE_SIZE - 1 - length (line_buf sys)")
    case False
    then show ?thesis
      using assms by (simp add: st make_room_def Let_def SYSLOG_MAX_MESSAGE_SIZE_def)
  next
    case True
    show ?thesis
    proof (cases "line_buf sys = []")
      case e: True
      with True have "length chunk > 1023"
        by (simp add: SYSLOG_MAX_MESSAGE_SIZE_def)
      from flush_slices_rest [OF this, of level tag "(ok, sys)"] True e show ?thesis
        by (simp add: st make_room_def Let_def flush_slices_line_buf)
    next
      case ne: False
      have "length (fst (flush_slices level tag chunk ?fl)) \<le> 1023"
      proof (cases "length chunk > 1023")
        case True
        then show ?thesis by (rule flush_slices_rest)
      next
        case False
        then show ?thesis by (simp add: flush_slices_fits)
      qed
      with True ne show ?thesis
        by (simp add: st make_room_def Let_def flush_slices_line_buf fl)
    qed
  qed
qed

lemma take_segment_bytes:
  "emitted_bytes (snd (take_segment level tag chunk st))
      + length (line_buf (snd (take_segment level tag chunk st)))
     \<le> emitted_bytes (snd st) + length (line_buf (snd st)) + length chunk"
  using make_room_bytes [of level tag chunk "prep level tag st"] prep_bytes [of level tag st]
  by (simp add: take_segment_prep append_chunk_def split_beta)

lemma prep_bounded:
  "length (line_buf (snd st)) \<le> 1023 \<Longrightarrow> length (line_buf (snd (prep level tag st))) \<le> 1023"
  by (cases st) (simp add: prep_line_buf)

lemma take_segment_bounded:
  assumes "length (line_buf (snd st)) \<le> 1023"
  shows "length (line_buf (snd (take_segment level tag chunk st))) \<le> 1023"
proof -
  have "length (line_buf (snd (prep level tag st))) \<le> 1023"
    using assms by (rule prep_bounded)
  then have "length (fst (make_room level tag chunk (prep level tag st)))
      + length (line_buf (snd (snd (make_room level tag chunk (prep level tag st))))) \<le> 1023"
    by (rule make_room_bounded)
  then show ?thesis
    by (simp add: take_segment_prep append_chunk_def split_beta)
qed

lemma flush_line_bytes:
  "emitted_bytes (snd (flush_line st)) + length (line_buf (snd (flush_line st)))
     \<le> emitted_bytes (snd st) + length (line_buf (snd st))"
  by (cases st) (simp add: flush_line_def split_beta emitted_bytes_and_emit)

lemma skip_terminator_le: "length (skip_terminator nl) \<le> length nl"
  by (induction nl rule: skip_terminator.induct) auto

lemma line_loop_bytes:
  "emitted_bytes (snd (line_loop level tag p st))
      + length (line_buf (snd (line_loop level tag p st)))
     \<le> emitted_bytes (snd st) + length (line_buf (snd st)) + length p"
proof (induction level tag p st rule: line_loop.induct)
  case (1 level tag p st)
  let ?P = "\<lambda>c. \<not> is_nl c"
  show ?case
  proof (cases "p = []")
    case True
    then show ?thesis by simp
  next
    case ne: False
    have "length (takeWhile ?P p @ dropWhile ?P p) = length p"
      by (simp only: takeWhile_dropWhile_id)
    then have len: "length (takeWhile ?P p) + length (dropWhile ?P p) = length p"
      by (simp only: length_append)
    show ?thesis
    proof (cases "dropWhile ?P p = []")
      case True
      have "line_loop level tag p st = take_segment level tag (takeWhile ?P p) st"
        by (subst line_loop.simps [of level tag p st]) (simp only: ne True if_False if_True Let_def simp_thms)
      with take_segment_bytes [of level tag "takeWhile ?P p" st] len show ?thesis
        by simp
    next
      case False
      let ?st' = "flush_line (take_segment level tag (takeWhile ?P p) st)"
      have u: "line_loop level tag p st
          = line_loop level tag (skip_terminator (dropWhile ?P p)) ?st'"
        by (subst line_loop.simps [of level tag p st]) (simp only: ne False if_False Let_def simp_thms)
      from "1.IH" [OF ne HOL.refl HOL.refl HOL.refl False]
        flush_line_bytes [of "take_segment level tag (takeWhile ?P p) st"]
        take_segment_bytes [of level tag "takeWhile ?P p" st]
        skip_terminator_le [of "dropWhile ?P p"] len
      show ?thesis
        unfolding u by linarith
    qed
  qed
qed

lemma line_loop_bounded:
  "length (line_buf (snd st)) \<le> 1023 \<Longrightarrow>
   length (line_buf (snd (line_loop level tag p st))) \<le> 1023"
proof (induction level tag p st rule: line_loop.induct)
  case (1 level tag p st)
  let ?P = "\<lambda>c. \<not> is_nl c"
  show ?case
  proof (cases "p = []")
    case True
    with "1.prems" show ?thesis by simp
  next
    case ne: False
    show ?thesis
    proof (cases "dropWhile ?P p = []")
      case True
      have "line_loop level tag p st = take_segment level tag (takeWhile ?P p) st"
        by (subst line_loop.simps [of level tag p st]) (simp only: ne True if_False if_True Let_def simp_thms)
      with take_segment_bounded [OF "1.prems"] show ?thesis
        by simp
    next
      case False
      let ?st' = "flush_line (take_segment level tag (takeWhile ?P p) st)"
      have u: "line_loop level tag p st
          = line_loop level tag (skip_terminator (dropWhile ?P p)) ?st'"
        by (subst line_loop.simps [of level tag p st]) (simp only: ne False if_False Let_def simp_thms)
      have "length (line_buf (snd ?st')) \<le> 1023"
        by (simp add: flush_line_empty)
      from "1.IH" [OF ne HOL.refl HOL.refl HOL.refl False this] show ?thesis
        by (simp add: u)
    qed
  qed
qed

subsection \<open>Evaluating the accumulator\<close>

lemmas accumulator_eval =
  logger_printf_line_def line_loop.simps take_segment_def flush_on_attr_change_def
  adopt_attrs_def make_room_def flush_slices.simps append_chunk_def flush_line_def and_emit_def
  attrs_changed_def use_tag_def is_nl_def Let_def logger_output_def printf_fallback_def
  printf_def boot_def logger_syslog_init_def SYSLOG_MAX_MESSAGE_SIZE_def level_defs line_ok_def

subsection \<open>Forced flush: the example and the exceptions\<close>

lemma no_attr_flush:
  assumes pending: "line_buf sys \<noteq> []"
    and same: "\<not> attrs_changed level tag sys"
    and nonempty: "r \<noteq> []"
    and guard: "line_guard_ok env sys"
    and fits: "length (line_buf sys) + length (takeWhile (\<lambda>c. \<not> is_nl c) (take 255 r)) \<le> 1023"
  shows "if dropWhile (\<lambda>c. \<not> is_nl c) (take 255 r) = []
         then emit_log (snd (logger_printf_line env level tag (Some (Rendered r)) sys))
                = emit_log sys \<and>
              line_buf (snd (logger_printf_line env level tag (Some (Rendered r)) sys))
                = line_buf sys @ take 255 r
         else \<exists>rest. emit_log (snd (logger_printf_line env level tag (Some (Rendered r)) sys))
                = emit_log sys @
                  (cur_level sys, Some (cur_tag sys),
                   line_buf sys @ takeWhile (\<lambda>c. \<not> is_nl c) (take 255 r)) # rest"
proof -
  let ?P = "\<lambda>c. \<not> is_nl c"
  let ?t = "take 255 r"
  define sys1 where
    "sys1 = (if line_mutex sys = None then sys\<lparr>line_mutex := line_mutex_create env\<rparr> else sys)"
  have s1: "line_buf sys1 = line_buf sys" "cur_tag sys1 = cur_tag sys"
    "cur_level sys1 = cur_level sys" "emit_log sys1 = emit_log sys"
    by (simp_all add: sys1_def)
  have same1: "\<not> attrs_changed level tag sys1"
    using same attrs_changed_frame [of sys1 sys level tag] by (simp add: s1)
  have ne: "?t \<noteq> []"
    using nonempty by (cases r) simp_all
  have call: "logger_printf_line env level tag (Some (Rendered r)) sys
      = line_loop level tag ?t (True, sys1)"
    unfolding sys1_def by (rule logger_printf_line_loop [OF guard])
  let ?st' = "(True, sys1\<lparr>line_buf := line_buf sys @ takeWhile ?P ?t\<rparr>)"
  have seg: "take_segment level tag (takeWhile ?P ?t) (True, sys1) = ?st'"
    using fits pending same1 by (subst append_fits) (simp_all add: s1 prep_keep)
  show ?thesis
  proof (cases "dropWhile ?P ?t = []")
    case True
    have all: "takeWhile ?P ?t = ?t"
      using takeWhile_dropWhile_id [of ?P ?t] True by simp
    have "line_loop level tag ?t (True, sys1) = ?st'"
      by (subst line_loop.simps [of level tag ?t "(True, sys1)"])
         (simp only: ne True if_False if_True Let_def simp_thms seg)
    then show ?thesis
      using True by (simp add: call all s1)
  next
    case False
    have u: "line_loop level tag ?t (True, sys1)
        = line_loop level tag (skip_terminator (dropWhile ?P ?t)) (flush_line ?st')"
      by (subst line_loop.simps [of level tag ?t "(True, sys1)"])
         (simp only: ne False if_False Let_def simp_thms seg)
    have "emit_log (snd (flush_line ?st'))
        = emit_log sys @ [(cur_level sys, Some (cur_tag sys), line_buf sys @ takeWhile ?P ?t)]"
      by (simp add: flush_line_def split_beta and_emit_True logger_output_frame s1)
    with line_loop_emit_log [of level tag "skip_terminator (dropWhile ?P ?t)" "flush_line ?st'"]
    have "\<exists>rest. emit_log (snd (line_loop level tag ?t (True, sys1)))
        = emit_log sys @
          (cur_level sys, Some (cur_tag sys), line_buf sys @ takeWhile ?P ?t) # rest"
      unfolding u by auto
    with False show ?thesis
      by (auto simp add: call)
  qed
qed

lemma partial_pending_eq:
  "partial_pending = (boot (\<lambda>k. cooperative))
     \<lparr>line_mutex := Some 2, cur_level := LOG_LEVEL_INFO, cur_tag := ''A'',
      line_buf := ''partial''\<rparr>"
  by (simp add: partial_pending_def accumulator_eval)

text \<open>
  C8, as the code has it. Let the pending buffer be non-empty and let a call with a
  non-empty text get past the line mutex. If its level differs from the pending level, or
  its tag is not \<^verbatim>\<open>NULL\<close>, the pending tag is not empty and the two differ in their first 48
  bytes, then the first thing the call does is to emit the pending buffer, with the
  pending level and the pending tag (the new tag when the pending tag is empty), and the
  text of the call is then processed from an empty buffer: the first new record is the
  old pending line, without a byte of the new text. In every other case (same level, and
  the tag \<^verbatim>\<open>NULL\<close>, or the pending tag empty, or both tags equal in their first 48 bytes)
  there is no such flush: when the first segment of the text fits behind the pending
  line it is appended to it, and the first record that follows, if the text has a
  terminator, carries the pending bytes and that segment together.
\<close>

theorem attribute_change_flush:
  assumes pending: "line_buf sys \<noteq> []"
    and nonempty: "r \<noteq> []"
    and guard: "line_guard_ok env sys"
  shows "(level \<noteq> cur_level sys \<or>
          (\<exists>t. tag = Some t \<and> cur_tag sys \<noteq> [] \<and> take 48 t \<noteq> take 48 (cur_tag sys)) \<longrightarrow>
            (\<exists>rest. emit_log (snd (logger_printf_line env level tag (Some (Rendered r)) sys))
               = emit_log sys @
                 (cur_level sys, Some (if cur_tag sys \<noteq> [] then cur_tag sys else use_tag tag),
                  line_buf sys) # rest) \<and>
            logger_printf_line env level tag (Some (Rendered r)) sys
              = line_loop level tag (take 255 r)
                  (case logger_output (cur_level sys)
                          (Some (if cur_tag sys \<noteq> [] then cur_tag sys else use_tag tag))
                          (line_buf sys)
                          (if line_mutex sys = None
                           then sys\<lparr>line_mutex := line_mutex_create env\<rparr> else sys) of
                     (ok, sys') \<Rightarrow> (ok, sys'\<lparr>line_buf := [], cur_tag := []\<rparr>))) \<and>
         (level = cur_level sys \<and>
          (tag = None \<or> cur_tag sys = [] \<or>
           (\<exists>t. tag = Some t \<and> take 48 t = take 48 (cur_tag sys))) \<and>
          length (line_buf sys) + length (takeWhile (\<lambda>c. \<not> is_nl c) (take 255 r)) \<le> 1023 \<longrightarrow>
            (if dropWhile (\<lambda>c. \<not> is_nl c) (take 255 r) = []
             then emit_log (snd (logger_printf_line env level tag (Some (Rendered r)) sys))
                    = emit_log sys \<and>
                  line_buf (snd (logger_printf_line env level tag (Some (Rendered r)) sys))
                    = line_buf sys @ take 255 r
             else \<exists>rest. emit_log (snd (logger_printf_line env level tag (Some (Rendered r)) sys))
                    = emit_log sys @
                      (cur_level sys, Some (cur_tag sys),
                       line_buf sys @ takeWhile (\<lambda>c. \<not> is_nl c) (take 255 r)) # rest))"
proof (intro conjI impI)
  assume "level \<noteq> cur_level sys \<or>
          (\<exists>t. tag = Some t \<and> cur_tag sys \<noteq> [] \<and> take 48 t \<noteq> take 48 (cur_tag sys))"
  then have changed: "attrs_changed level tag sys"
    by (auto simp add: attrs_changed_def)
  from attr_flush_first [OF pending changed nonempty guard]
  show "\<exists>rest. emit_log (snd (logger_printf_line env level tag (Some (Rendered r)) sys))
               = emit_log sys @
                 (cur_level sys, Some (if cur_tag sys \<noteq> [] then cur_tag sys else use_tag tag),
                  line_buf sys) # rest"
    and "logger_printf_line env level tag (Some (Rendered r)) sys
              = line_loop level tag (take 255 r)
                  (case logger_output (cur_level sys)
                          (Some (if cur_tag sys \<noteq> [] then cur_tag sys else use_tag tag))
                          (line_buf sys)
                          (if line_mutex sys = None
                           then sys\<lparr>line_mutex := line_mutex_create env\<rparr> else sys) of
                     (ok, sys') \<Rightarrow> (ok, sys'\<lparr>line_buf := [], cur_tag := []\<rparr>))"
    by blast+
next
  assume a: "level = cur_level sys \<and>
          (tag = None \<or> cur_tag sys = [] \<or>
           (\<exists>t. tag = Some t \<and> take 48 t = take 48 (cur_tag sys))) \<and>
          length (line_buf sys) + length (takeWhile (\<lambda>c. \<not> is_nl c) (take 255 r)) \<le> 1023"
  then have same: "\<not> attrs_changed level tag sys"
    by (cases tag) (auto simp add: attrs_changed_def)
  from a have fits:
    "length (line_buf sys) + length (takeWhile (\<lambda>c. \<not> is_nl c) (take 255 r)) \<le> 1023"
    by simp
  from no_attr_flush [OF pending same nonempty guard fits]
  show "if dropWhile (\<lambda>c. \<not> is_nl c) (take 255 r) = []
             then emit_log (snd (logger_printf_line env level tag (Some (Rendered r)) sys))
                    = emit_log sys \<and>
                  line_buf (snd (logger_printf_line env level tag (Some (Rendered r)) sys))
                    = line_buf sys @ take 255 r
             else \<exists>rest. emit_log (snd (logger_printf_line env level tag (Some (Rendered r)) sys))
                    = emit_log sys @
                      (cur_level sys, Some (cur_tag sys),
                       line_buf sys @ takeWhile (\<lambda>c. \<not> is_nl c) (take 255 r)) # rest" .
qed

theorem attribute_change_flush_witness:
  "logger_printf_line line_ok LOG_LEVEL_WARNING (Some ''B'') (Some (Rendered ''x'')) partial_pending
     = (True, partial_pending
          \<lparr>cur_level := LOG_LEVEL_WARNING, cur_tag := ''B'', line_buf := ''x'',
           emit_log := [(LOG_LEVEL_INFO, Some ''A'', ''partial'')],
           stdout := [''partial'' @ [CHR 0x0A]]\<rparr>) \<and>
   logger_printf_line line_ok LOG_LEVEL_WARNING (Some ''A'') (Some (Rendered ''x'')) partial_pending
     = (True, partial_pending
          \<lparr>cur_level := LOG_LEVEL_WARNING, cur_tag := ''A'', line_buf := ''x'',
           emit_log := [(LOG_LEVEL_INFO, Some ''A'', ''partial'')],
           stdout := [''partial'' @ [CHR 0x0A]]\<rparr>) \<and>
   logger_printf_line line_ok LOG_LEVEL_INFO (Some ''B'') (Some (Rendered ''x'')) partial_pending
     = (True, partial_pending
          \<lparr>cur_level := LOG_LEVEL_INFO, cur_tag := ''B'', line_buf := ''x'',
           emit_log := [(LOG_LEVEL_INFO, Some ''A'', ''partial'')],
           stdout := [''partial'' @ [CHR 0x0A]]\<rparr>) \<and>
   logger_printf_line line_ok LOG_LEVEL_INFO None (Some (Rendered ''x'')) partial_pending
     = (True, partial_pending\<lparr>line_buf := ''partialx''\<rparr>) \<and>
   logger_printf_line line_ok LOG_LEVEL_INFO (Some ''A'') (Some (Rendered (''x'' @ [CHR 0x0A])))
       partial_pending
     = (True, partial_pending
          \<lparr>cur_tag := [], line_buf := [],
           emit_log := [(LOG_LEVEL_INFO, Some ''A'', ''partialx'')],
           stdout := [''partialx'' @ [CHR 0x0A]]\<rparr>)"
  using
    attribute_change_flush [of partial_pending "''x''" line_ok LOG_LEVEL_WARNING "Some ''B''"]
    attribute_change_flush [of partial_pending "''x''" line_ok LOG_LEVEL_WARNING "Some ''A''"]
    attribute_change_flush [of partial_pending "''x''" line_ok LOG_LEVEL_INFO "Some ''B''"]
    attribute_change_flush [of partial_pending "''x''" line_ok LOG_LEVEL_INFO None]
    attribute_change_flush [of partial_pending "''x'' @ [CHR 0x0A]" line_ok LOG_LEVEL_INFO
      "Some ''A''"]
  by (simp add: partial_pending_eq accumulator_eval line_guard_ok_def)

text \<open>
  The claim as written (a flush whenever level or tag differ) fails where line 284 does
  not look at the tag: after \<^verbatim>\<open>logLine(INFO, "A", "partial")\<close> a call with a \<^verbatim>\<open>NULL\<close> tag (which
  stands for "printf") does not flush, and after \<^verbatim>\<open>logLine(INFO, "", "partial")\<close> a call with
  tag "B" does not flush either: in both cases "x" is appended to "partial".
\<close>

theorem attribute_change_flush_counterexample:
  "emit_log (snd (logger_printf_line line_ok LOG_LEVEL_INFO None (Some (Rendered ''x''))
     (snd (logger_printf_line line_ok LOG_LEVEL_INFO (Some ''A'') (Some (Rendered ''partial''))
        (boot (\<lambda>k. cooperative)))))) = [] \<and>
   line_buf (snd (logger_printf_line line_ok LOG_LEVEL_INFO None (Some (Rendered ''x''))
     (snd (logger_printf_line line_ok LOG_LEVEL_INFO (Some ''A'') (Some (Rendered ''partial''))
        (boot (\<lambda>k. cooperative)))))) = ''partialx'' \<and>
   emit_log (snd (logger_printf_line line_ok LOG_LEVEL_INFO (Some ''B'') (Some (Rendered ''x''))
     (snd (logger_printf_line line_ok LOG_LEVEL_INFO (Some []) (Some (Rendered ''partial''))
        (boot (\<lambda>k. cooperative)))))) = [] \<and>
   line_buf (snd (logger_printf_line line_ok LOG_LEVEL_INFO (Some ''B'') (Some (Rendered ''x''))
     (snd (logger_printf_line line_ok LOG_LEVEL_INFO (Some []) (Some (Rendered ''partial''))
        (boot (\<lambda>k. cooperative)))))) = ''partialx''"
  by (simp add: accumulator_eval)

subsection \<open>The 256-byte rendering buffer\<close>

lemma emitted_bytes_mono:
  "emitted_bytes (snd st) \<le> emitted_bytes (snd (line_loop level tag p st))"
  using line_loop_emit_log [of level tag p st]
  by (auto simp add: emitted_bytes_def)

text \<open>
  C10. A call of \<^verbatim>\<open>logger_printf_line\<close> does exactly what it does on the first 255 bytes of
  its rendered text: the bytes after them have no effect. And the bytes the accumulator
  holds or has handed to \<^verbatim>\<open>logger_output\<close> grow by at most 255 in one call.
\<close>

theorem printf_line_truncation:
  "logger_printf_line env level tag (Some (Rendered r)) sys
     = logger_printf_line env level tag (Some (Rendered (take 255 r))) sys \<and>
   emitted_bytes (snd (logger_printf_line env level tag (Some (Rendered r)) sys))
     + length (line_buf (snd (logger_printf_line env level tag (Some (Rendered r)) sys)))
     \<le> emitted_bytes sys + length (line_buf sys) + 255"
proof
  show "logger_printf_line env level tag (Some (Rendered r)) sys
     = logger_printf_line env level tag (Some (Rendered (take 255 r))) sys"
    by (simp add: logger_printf_line_def)
next
  define sys1 where
    "sys1 = (if line_mutex sys = None then sys\<lparr>line_mutex := line_mutex_create env\<rparr> else sys)"
  have s1: "emitted_bytes sys1 = emitted_bytes sys" "line_buf sys1 = line_buf sys"
    by (simp_all add: sys1_def)
  have "logger_printf_line env level tag (Some (Rendered r)) sys = (False, sys1) \<or>
        logger_printf_line env level tag (Some (Rendered r)) sys
          = line_loop level tag (take 255 r) (True, sys1)"
    by (simp add: logger_printf_line_def Let_def sys1_def)
  then show "emitted_bytes (snd (logger_printf_line env level tag (Some (Rendered r)) sys))
     + length (line_buf (snd (logger_printf_line env level tag (Some (Rendered r)) sys)))
     \<le> emitted_bytes sys + length (line_buf sys) + 255"
  proof
    assume "logger_printf_line env level tag (Some (Rendered r)) sys = (False, sys1)"
    then show ?thesis by (simp add: s1)
  next
    assume l: "logger_printf_line env level tag (Some (Rendered r)) sys
          = line_loop level tag (take 255 r) (True, sys1)"
    have "length (take 255 r) \<le> 255" by simp
    with line_loop_bytes [of level tag "take 255 r" "(True, sys1)"] show ?thesis
      unfolding l by (simp add: s1)
  qed
qed

theorem printf_line_truncation_witness:
  "logger_printf_line line_ok LOG_LEVEL_INFO (Some ''A'')
      (Some (Rendered (replicate 300 CHR ''a''))) (boot (\<lambda>k. cooperative))
     = (True, (boot (\<lambda>k. cooperative))
          \<lparr>line_mutex := Some 2, cur_level := LOG_LEVEL_INFO, cur_tag := ''A'',
           line_buf := replicate 255 CHR ''a''\<rparr>)"
  using printf_line_truncation [of line_ok LOG_LEVEL_INFO "Some ''A''" "replicate 300 CHR ''a''"
      "boot (\<lambda>k. cooperative)"]
  by (simp add: accumulator_eval)

subsection \<open>A message longer than the line buffer\<close>

text \<open>
  C3, as the code has it. A single call whose rendered message is longer than the line
  buffer and has no terminator is not sliced: only the first 255 bytes of the message
  reach the accumulator. The call emits at most one record, and that record is the line
  that was pending before the call (at most capacity - 1 bytes), flushed because the
  attributes changed or because the 255 bytes did not fit behind it; the 255 bytes stay
  pending and the rest of the message is lost.
\<close>

theorem long_message_not_sliced:
  assumes noterm: "\<forall>c\<in>set r. \<not> is_nl c"
    and long: "length r > SYSLOG_MAX_MESSAGE_SIZE"
    and guard: "line_guard_ok env sys"
    and bound: "length (line_buf sys) \<le> SYSLOG_MAX_MESSAGE_SIZE - 1"
  shows "\<exists>recs.
           emit_log (snd (logger_printf_line env level tag (Some (Rendered r)) sys))
             = emit_log sys @ recs \<and>
           length recs \<le> 1 \<and>
           (\<forall>c\<in>set recs. snd (snd c) = line_buf sys) \<and>
           line_buf (snd (logger_printf_line env level tag (Some (Rendered r)) sys))
             = (if recs = [] then line_buf sys else []) @ take 255 r \<and>
           length (line_buf (snd (logger_printf_line env level tag (Some (Rendered r)) sys)))
             \<le> SYSLOG_MAX_MESSAGE_SIZE - 1"
proof -
  let ?sys' = "snd (logger_printf_line env level tag (Some (Rendered r)) sys)"
  from long have len: "length (take 255 r) = 255"
    by (simp add: SYSLOG_MAX_MESSAGE_SIZE_def)
  note c = single_call_no_terminator [OF noterm guard, of level tag, unfolded Let_def]
  show ?thesis
  proof (cases "r = [] \<or> line_buf sys = [] \<or>
      (\<not> attrs_changed level tag sys \<and> length (line_buf sys) + length (take 255 r) \<le> 1023)")
    case True
    with c have e: "emit_log ?sys' = emit_log sys"
      and l: "line_buf ?sys' = line_buf sys @ take 255 r"
      by simp_all
    from True long have "length (line_buf sys) + 255 \<le> 1023"
      by (auto simp add: len SYSLOG_MAX_MESSAGE_SIZE_def)
    with e l show ?thesis
      by (intro exI [of _ "[]"]) (simp add: len SYSLOG_MAX_MESSAGE_SIZE_def)
  next
    case False
    with c have "emit_log ?sys' = emit_log sys @
        [(cur_level sys,
          Some (if attrs_changed level tag sys \<and> cur_tag sys = [] then use_tag tag
                else cur_tag sys),
          line_buf sys)]"
      and "line_buf ?sys' = take 255 r"
      by simp_all
    then show ?thesis
      by (intro exI [of _ "[(cur_level sys,
          Some (if attrs_changed level tag sys \<and> cur_tag sys = [] then use_tag tag
                else cur_tag sys),
          line_buf sys)]"]) (simp add: SYSLOG_MAX_MESSAGE_SIZE_def)
  qed
qed

text \<open>
  The claim as written (several records that concatenate back to the message) fails for a
  message of 1025 bytes \<open>a\<close> sent to a fresh accumulator: no record at all is emitted, and
  255 bytes are pending.
\<close>

theorem long_message_not_sliced_counterexample:
  "emit_log (snd (logger_printf_line line_ok LOG_LEVEL_INFO (Some ''A'')
      (Some (Rendered (replicate 1025 CHR ''a''))) (boot (\<lambda>k. cooperative)))) = [] \<and>
   line_buf (snd (logger_printf_line line_ok LOG_LEVEL_INFO (Some ''A'')
      (Some (Rendered (replicate 1025 CHR ''a''))) (boot (\<lambda>k. cooperative))))
     = replicate 255 CHR ''a'' \<and>
   concat (map (\<lambda>c. snd (snd c))
      (emit_log (snd (logger_printf_line line_ok LOG_LEVEL_INFO (Some ''A'')
         (Some (Rendered (replicate 1025 CHR ''a''))) (boot (\<lambda>k. cooperative))))))
     \<noteq> replicate 1025 CHR ''a''"
  by (simp add: accumulator_eval)

theorem long_message_not_sliced_witness:
  "emit_log (snd (logger_printf_line line_ok LOG_LEVEL_INFO (Some ''A'')
      (Some (Rendered (replicate 1025 CHR ''a'')))
      ((boot (\<lambda>k. cooperative))\<lparr>line_buf := replicate 1000 CHR ''b'',
          cur_level := LOG_LEVEL_INFO, cur_tag := ''A''\<rparr>)))
     = [(LOG_LEVEL_INFO, Some ''A'', replicate 1000 CHR ''b'')] \<and>
   line_buf (snd (logger_printf_line line_ok LOG_LEVEL_INFO (Some ''A'')
      (Some (Rendered (replicate 1025 CHR ''a'')))
      ((boot (\<lambda>k. cooperative))\<lparr>line_buf := replicate 1000 CHR ''b'',
          cur_level := LOG_LEVEL_INFO, cur_tag := ''A''\<rparr>)))
     = replicate 255 CHR ''a''"
  using long_message_not_sliced [of "replicate 1025 CHR ''a''" line_ok
      "(boot (\<lambda>k. cooperative))\<lparr>line_buf := replicate 1000 CHR ''b'',
          cur_level := LOG_LEVEL_INFO, cur_tag := ''A''\<rparr>" LOG_LEVEL_INFO "Some ''A''"]
  by (simp add: accumulator_eval line_guard_ok_def)

subsection \<open>Chunk boundaries\<close>

lemma feed_chunks_False: "fst (feed_chunks env level tag cs (False, sys)) = False"
  by (induction cs arbitrary: sys) (simp_all add: split_beta)

lemma printf_line_line_mutex:
  "line_guard_ok env sys \<Longrightarrow>
   line_guard_ok env (snd (logger_printf_line env level tag (Some (Rendered r)) sys))"
  by (auto simp add: logger_printf_line_loop line_loop_line_mutex line_guard_ok_def)

lemma printf_line_line_buf:
  assumes "line_guard_ok env sys"
  shows "length (line_buf (snd (logger_printf_line env level tag (Some (Rendered r)) sys)))
     \<le> length (line_buf sys) + length r"
proof -
  define sys1 where
    "sys1 = (if line_mutex sys = None then sys\<lparr>line_mutex := line_mutex_create env\<rparr> else sys)"
  have s1: "emitted_bytes sys1 = emitted_bytes sys" "line_buf sys1 = line_buf sys"
    by (simp_all add: sys1_def)
  have l: "logger_printf_line env level tag (Some (Rendered r)) sys
      = line_loop level tag (take 255 r) (True, sys1)"
    unfolding sys1_def by (rule logger_printf_line_loop [OF assms])
  have "length (take 255 r) \<le> length r" by simp
  with line_loop_bytes [of level tag "take 255 r" "(True, sys1)"]
    emitted_bytes_mono [of "(True, sys1)" level tag "take 255 r"]
  show ?thesis
    unfolding l by (simp add: s1)
qed

text \<open>
  C4, as the code has it. Let a text of at most 255 bytes be cut into one or more chunks,
  delivered by successive calls with the same level and the same tag, where the tag is
  \<^verbatim>\<open>NULL\<close> or shorter than 48 bytes, no cut separates a \<^verbatim>\<open>\r\<close> from a \<^verbatim>\<open>\n\<close> next to it, the
  pending line and the text together fit the line buffer, every call gets past the line
  mutex and every call returns true. Then the calls leave exactly the state (records
  emitted, sink, wire, counters, pending line) that the single call with the whole text
  leaves, and return what it returns.
\<close>

theorem chunk_independence:
  assumes tg: "short_tag tag"
  shows "cs \<noteq> [] \<Longrightarrow>
         length (line_buf sys) + length (concat cs) \<le> 1023 \<Longrightarrow>
         length (concat cs) \<le> 255 \<Longrightarrow>
         cuts_ok cs \<Longrightarrow>
         line_guard_ok env sys \<Longrightarrow>
         fst (feed_chunks env level tag cs (True, sys)) \<Longrightarrow>
         feed_chunks env level tag cs (True, sys)
           = logger_printf_line env level tag (Some (Rendered (concat cs))) sys"
proof (induction cs arbitrary: sys)
  case Nil
  then show ?case by simp
next
  case (Cons c cs)
  let ?r = "logger_printf_line env level tag (Some (Rendered c)) sys"
  show ?case
  proof (cases "cs = []")
    case True
    then show ?thesis by (simp add: split_beta)
  next
    case ne: False
    obtain ok1 sys1 where r: "?r = (ok1, sys1)"
      by (cases ?r)
    have step: "feed_chunks env level tag (c # cs) (True, sys)
        = feed_chunks env level tag cs (ok1, sys1)"
      by (simp add: r)
    have ok1: "fst ?r"
    proof (rule ccontr)
      assume "\<not> fst ?r"
      then have "ok1 = False"
        by (simp add: r)
      with Cons.prems(6) show False
        by (simp only: step feed_chunks_False)
    qed
    then have step': "feed_chunks env level tag (c # cs) (True, sys)
        = feed_chunks env level tag cs (True, snd ?r)"
      by (simp add: step r)
    have lb: "length (line_buf (snd ?r)) \<le> length (line_buf sys) + length c"
      by (rule printf_line_line_buf [OF Cons.prems(5)])
    have g: "line_guard_ok env (snd ?r)"
      by (rule printf_line_line_mutex [OF Cons.prems(5)])
    have "feed_chunks env level tag cs (True, snd ?r)
        = logger_printf_line env level tag (Some (Rendered (concat cs))) (snd ?r)"
    proof (rule Cons.IH [OF ne _ _ _ g])
      show "length (line_buf (snd ?r)) + length (concat cs) \<le> 1023"
        using lb Cons.prems(2) by simp
      show "length (concat cs) \<le> 255"
        using Cons.prems(3) by simp
      show "cuts_ok cs"
        using Cons.prems(4) by simp
      show "fst (feed_chunks env level tag cs (True, snd ?r))"
        using Cons.prems(6) by (simp only: step')
    qed
    also have "\<dots> = logger_printf_line env level tag (Some (Rendered (c @ concat cs))) sys"
    proof (rule two_calls [OF tg _ _ _ Cons.prems(5) ok1])
      show "length (line_buf sys) + length (c @ concat cs) \<le> 1023"
        using Cons.prems(2) by simp
      show "length (c @ concat cs) \<le> 255"
        using Cons.prems(3) by simp
      show "\<not> splits_pair c (concat cs)"
        using Cons.prems(4) by simp
    qed
    finally show ?thesis
      by (simp only: step' concat.simps)
  qed
qed

theorem chunk_independence_witness:
  "feed_chunks line_ok LOG_LEVEL_INFO (Some ''A'') [''hello '', ''world'' @ [CHR 0x0A]]
      (True, boot (\<lambda>k. cooperative))
     = logger_printf_line line_ok LOG_LEVEL_INFO (Some ''A'')
         (Some (Rendered (''hello world'' @ [CHR 0x0A]))) (boot (\<lambda>k. cooperative)) \<and>
   emit_log (snd (feed_chunks line_ok LOG_LEVEL_INFO (Some ''A'')
      [''hello '', ''world'' @ [CHR 0x0A]] (True, boot (\<lambda>k. cooperative))))
     = [(LOG_LEVEL_INFO, Some ''A'', ''hello world'')]"
  using chunk_independence [of "Some ''A''" "[''hello '', ''world'' @ [CHR 0x0A]]"
      "boot (\<lambda>k. cooperative)" line_ok LOG_LEVEL_INFO]
  by (simp add: accumulator_eval short_tag_def splits_pair_def line_guard_ok_def)

text \<open>
  The claim as written includes a terminator pair cut between two calls. There it fails,
  with no buffer exhaustion involved: \<^verbatim>\<open>"a\r\n"\<close> in one call is one record "a"; cut into
  \<^verbatim>\<open>"a\r"\<close> and \<^verbatim>\<open>"\n"\<close> it is the record "a" and then an empty record, because nothing
  remembers across calls that the last byte was a \<^verbatim>\<open>\r\<close>.
\<close>

theorem chunk_independence_counterexample:
  "emit_log (snd (feed_chunks line_ok LOG_LEVEL_INFO (Some ''A'')
      [''a'' @ [CHR 0x0D], [CHR 0x0A]] (True, boot (\<lambda>k. cooperative))))
     = [(LOG_LEVEL_INFO, Some ''A'', ''a''), (LOG_LEVEL_INFO, Some ''A'', [])] \<and>
   emit_log (snd (logger_printf_line line_ok LOG_LEVEL_INFO (Some ''A'')
      (Some (Rendered (''a'' @ [CHR 0x0D, CHR 0x0A]))) (boot (\<lambda>k. cooperative))))
     = [(LOG_LEVEL_INFO, Some ''A'', ''a'')]"
  by (simp add: accumulator_eval)

subsection \<open>The slicing loop\<close>

lemma and_emit_ok: "fst (and_emit l t m st) \<Longrightarrow> fst st"
  by (cases st) (simp add: and_emit_def split: if_splits)

lemma flush_slices_ok:
  "fst (snd (flush_slices level tag chunk st)) \<Longrightarrow> fst st"
proof (induction "length chunk" arbitrary: chunk st rule: less_induct)
  case less
  show ?case
  proof (cases "length chunk > 1023")
    case True
    then have "length (drop 1023 chunk) < length chunk" by simp
    from less.hyps [OF this, of "and_emit level (use_tag tag) (take 1023 chunk) st"]
      less.prems True
    show ?thesis
      by (simp add: flush_slices_step and_emit_ok)
  next
    case False
    with less.prems show ?thesis by (simp add: flush_slices_fits)
  qed
qed

lemma flush_slices_concat:
  "fst (snd (flush_slices level tag chunk st)) \<Longrightarrow>
   \<exists>recs. emit_log (snd (snd (flush_slices level tag chunk st))) = emit_log (snd st) @ recs \<and>
          (\<forall>c\<in>set recs. fst c = level \<and> fst (snd c) = Some (use_tag tag) \<and>
                          length (snd (snd c)) = 1023) \<and>
          concat (map (\<lambda>c. snd (snd c)) recs) @ fst (flush_slices level tag chunk st) = chunk"
proof (induction "length chunk" arbitrary: chunk st rule: less_induct)
  case less
  show ?case
  proof (cases "length chunk > 1023")
    case True
    let ?st' = "and_emit level (use_tag tag) (take 1023 chunk) st"
    from True have shorter: "length (drop 1023 chunk) < length chunk" by simp
    have u: "flush_slices level tag chunk st = flush_slices level tag (drop 1023 chunk) ?st'"
      by (rule flush_slices_step [OF True])
    from less.prems have ok': "fst (snd (flush_slices level tag (drop 1023 chunk) ?st'))"
      by (simp only: u)
    from flush_slices_ok [OF ok'] have "fst st"
      by (rule and_emit_ok)
    then have e: "emit_log (snd ?st')
        = emit_log (snd st) @ [(level, Some (use_tag tag), take 1023 chunk)]"
      by (simp add: and_emit_frame)
    from less.hyps [OF shorter ok'] obtain recs where
      r: "emit_log (snd (snd (flush_slices level tag (drop 1023 chunk) ?st')))
            = emit_log (snd ?st') @ recs"
      "\<forall>c\<in>set recs. fst c = level \<and> fst (snd c) = Some (use_tag tag) \<and>
                          length (snd (snd c)) = 1023"
      "concat (map (\<lambda>c. snd (snd c)) recs)
         @ fst (flush_slices level tag (drop 1023 chunk) ?st') = drop 1023 chunk"
      by blast
    have "take 1023 chunk @ concat (map (\<lambda>c. snd (snd c)) recs)
         @ fst (flush_slices level tag (drop 1023 chunk) ?st') = chunk"
      by (simp only: r(3) append_take_drop_id)
    with r(1,2) True show ?thesis
      unfolding u e
      by (intro exI [of _ "(level, Some (use_tag tag), take 1023 chunk) # recs"]) simp
  next
    case False
    then show ?thesis
      by (intro exI [of _ "[]"]) (simp add: flush_slices_fits)
  qed
qed

text \<open>
  The slicing of lines 306 to 313, reached only by a segment longer than the buffer: on
  an empty buffer, a text without terminator is emitted in records of exactly 1023 bytes
  as long as more than 1023 bytes remain, and what remains stays pending. Records and
  pending bytes together are the text; the records alone are not.
\<close>

lemma line_loop_slices:
  assumes noterm: "\<forall>c\<in>set p. \<not> is_nl c"
    and empty: "line_buf sys = []"
    and ok: "fst (line_loop level tag p (True, sys))"
  shows "\<exists>recs. emit_log (snd (line_loop level tag p (True, sys))) = emit_log sys @ recs \<and>
           (\<forall>c\<in>set recs. fst c = level \<and> fst (snd c) = Some (use_tag tag) \<and>
                           length (snd (snd c)) = 1023) \<and>
           concat (map (\<lambda>c. snd (snd c)) recs) @ line_buf (snd (line_loop level tag p (True, sys)))
             = p"
proof (cases "p = []")
  case True
  then show ?thesis
    by (intro exI [of _ "[]"]) (simp add: empty)
next
  case ne: False
  let ?sys1 = "sys\<lparr>cur_level := level, cur_tag := take 47 (use_tag tag)\<rparr>"
  let ?r = "flush_slices level tag p (True, ?sys1)"
  have seg: "line_loop level tag p (True, sys) = take_segment level tag p (True, sys)"
    by (rule line_loop_no_nl [OF ne noterm])
  show ?thesis
  proof (cases "length p > 1023")
    case False
    then have "take_segment level tag p (True, sys) = (True, ?sys1\<lparr>line_buf := p\<rparr>)"
      using empty by (simp add: append_fits prep_empty)
    then show ?thesis
      by (intro exI [of _ "[]"]) (simp add: seg)
  next
    case True
    then have ts: "take_segment level tag p (True, sys) = append_chunk ?r"
      using empty
      by (simp add: take_segment_prep prep_empty make_room_def Let_def SYSLOG_MAX_MESSAGE_SIZE_def)
    have lb: "line_buf (snd (snd ?r)) = []"
      by (simp add: flush_slices_line_buf empty)
    from ok have "fst (snd ?r)"
      by (simp add: seg ts append_chunk_def split_beta)
    from flush_slices_concat [OF this] obtain recs where
      "emit_log (snd (snd ?r)) = emit_log sys @ recs"
      "\<forall>c\<in>set recs. fst c = level \<and> fst (snd c) = Some (use_tag tag) \<and>
                          length (snd (snd c)) = 1023"
      "concat (map (\<lambda>c. snd (snd c)) recs) @ fst ?r = p"
      by auto
    then show ?thesis
      by (intro exI [of _ recs]) (simp add: seg ts append_chunk_def split_beta lb)
  qed
qed

subsection \<open>The handle invariant\<close>

lemma logger_output_handles:
  assumes "quiet sys"
  shows "udp (logger_syslog (snd (logger_output level tag message sys))) = udp (logger_syslog sys)"
    and "initialized (logger_syslog (snd (logger_output level tag message sys)))
           = initialized (logger_syslog sys)"
    and "pcbs (snd (logger_output level tag message sys)) = pcbs sys"
proof -
  let ?m = "meanwhile (future sys (length (emit_log sys)))"
  from assms have k: "udp (?m s) = udp s" "initialized (?m s) = initialized s" for s
    by (simp_all add: quiet_def)
  show "udp (logger_syslog (snd (logger_output level tag message sys))) = udp (logger_syslog sys)"
    by (simp add: logger_output_def Let_def count_failure_def count_sent_def
        printf_fallback_def printf_def k split: option.splits)
  show "initialized (logger_syslog (snd (logger_output level tag message sys)))
           = initialized (logger_syslog sys)"
    by (simp add: logger_output_def Let_def count_failure_def count_sent_def
        printf_fallback_def printf_def k split: option.splits)
  show "pcbs (snd (logger_output level tag message sys)) = pcbs sys"
    by (simp add: logger_output_def Let_def printf_fallback_def printf_def
        split: option.splits)
qed

lemma logger_output_handle_inv:
  assumes "handle_inv sys \<and> quiet sys"
  shows "handle_inv (snd (logger_output level tag message sys)) \<and>
         quiet (snd (logger_output level tag message sys))"
proof -
  from assms have q: "quiet sys" and i: "handle_inv sys" by simp_all
  have "quiet (snd (logger_output level tag message sys))"
    using q by (simp add: quiet_def logger_output_frame)
  moreover have "handle_inv (snd (logger_output level tag message sys))"
    using i by (simp add: handle_inv_def logger_output_handles [OF q])
  ultimately show ?thesis by simp
qed

lemma line_loop_handle_inv:
  "handle_inv (snd st) \<and> quiet (snd st) \<Longrightarrow>
   handle_inv (snd (line_loop level tag p st)) \<and> quiet (snd (line_loop level tag p st))"
proof -
  let ?R = "\<lambda>s s'. (handle_inv s \<and> quiet s) \<longrightarrow> (handle_inv s' \<and> quiet s')"
  have "?R (snd st) (snd (line_loop level tag p st))"
  proof (rule line_loop_rel [where R = ?R])
    show "?R sys sys" for sys by simp
    show "?R x y \<Longrightarrow> ?R y z \<Longrightarrow> ?R x z" for x y z by blast
    show "?R sys (snd (logger_output l t m sys))" for l t m sys
      using logger_output_handle_inv [of sys l t m] by blast
    show "?R sys (sys\<lparr>line_buf := x\<rparr>)" for sys x
      by (simp add: handle_inv_def quiet_def)
    show "?R sys (sys\<lparr>cur_tag := x\<rparr>)" for sys x
      by (simp add: handle_inv_def quiet_def)
    show "?R sys (sys\<lparr>cur_level := x\<rparr>)" for sys x
      by (simp add: handle_inv_def quiet_def)
  qed
  then show "handle_inv (snd st) \<and> quiet (snd st) \<Longrightarrow>
   handle_inv (snd (line_loop level tag p st)) \<and> quiet (snd (line_loop level tag p st))"
    by simp
qed

lemma logger_printf_line_handle_inv:
  assumes "handle_inv sys" and "quiet sys"
  shows "handle_inv (snd (logger_printf_line env level tag fmt sys))"
proof -
  define sys1 where
    "sys1 = (if line_mutex sys = None then sys\<lparr>line_mutex := line_mutex_create env\<rparr> else sys)"
  have 1: "handle_inv sys1 \<and> quiet sys1"
    using assms by (simp add: sys1_def handle_inv_def quiet_def)
  have "snd (logger_printf_line env level tag fmt sys) = sys \<or>
        snd (logger_printf_line env level tag fmt sys) = sys1 \<or>
        (\<exists>r. snd (logger_printf_line env level tag fmt sys)
           = snd (line_loop level tag (take 255 r) (True, sys1)))"
    by (cases fmt; simp add: logger_printf_line_def Let_def sys1_def [symmetric]
        split: rendering.splits) auto
  with assms(1) 1 line_loop_handle_inv [of "(True, sys1)" level tag] show ?thesis
    by auto
qed

text \<open>
  C6. The handle invariant (\<^verbatim>\<open>udp\<close> non-null exactly when \<^verbatim>\<open>initialized\<close>, and the client's
  live control blocks are exactly the one \<^verbatim>\<open>udp\<close> points to) holds at boot and, where it
  holds before a call, it holds after it, the mutex being released: for every call of
  \<^verbatim>\<open>init_logger\<close>, whatever its arguments and whatever FreeRTOS and lwIP answer, so that
  after the call at most one control block is live; for \<^verbatim>\<open>logger_set_min_level\<close> and
  \<^verbatim>\<open>logger_reset_stats\<close>; and for \<^verbatim>\<open>logger_output\<close> and \<^verbatim>\<open>logger_printf_line\<close>, which never write
  the handle, as long as no other task writes it while they wait for the mutex. When \<^verbatim>\<open>init_logger\<close> got the mutex and \<^verbatim>\<open>udp_new\<close> or \<^verbatim>\<open>udp_bind\<close> failed, it
  returns false with \<^verbatim>\<open>initialized\<close> false, \<^verbatim>\<open>udp\<close> null and no live control block: the old one
  has been removed.
\<close>

theorem configure_handles:
  assumes "handle_inv sys"
  shows "handle_inv (snd (init_logger env ipstr port_arg sys)) \<and>
         length (pcbs (snd (init_logger env ipstr port_arg sys))) \<le> 1 \<and>
         (passes_guard env ipstr port_arg sys \<and> (\<not> udp_new_ok env \<or> \<not> udp_bind_ok env) \<longrightarrow>
            fst (init_logger env ipstr port_arg sys) = False \<and>
            \<not> initialized (logger_syslog (snd (init_logger env ipstr port_arg sys))) \<and>
            udp (logger_syslog (snd (init_logger env ipstr port_arg sys))) = None \<and>
            pcbs (snd (init_logger env ipstr port_arg sys)) = []) \<and>
         handle_inv (logger_set_min_level taken lvl sys) \<and>
         handle_inv (logger_reset_stats taken sys) \<and>
         (quiet sys \<longrightarrow>
            handle_inv (snd (logger_output level tag message sys)) \<and>
            handle_inv (snd (logger_printf_line lenv level tag fmt sys)))"
proof -
  have "handle_inv (logger_set_min_level taken lvl sys)"
    using assms by (simp add: logger_set_min_level_def handle_inv_def)
  moreover have "handle_inv (logger_reset_stats taken sys)"
    using assms by (simp add: logger_reset_stats_def handle_inv_def)
  moreover have "handle_inv (snd (logger_output level tag message sys))" if "quiet sys"
    using logger_output_handle_inv [of sys level tag message] assms that by simp
  moreover have "handle_inv (snd (logger_printf_line lenv level tag fmt sys))" if "quiet sys"
    using assms that by (rule logger_printf_line_handle_inv)
  ultimately show ?thesis
    using init_logger_handles [OF assms, of env ipstr port_arg] by blast
qed

theorem configure_handles_witness:
  "handle_inv (boot (\<lambda>k. cooperative)) \<and>
   handle_inv (ready (\<lambda>k. cooperative)) \<and>
   pcbs (ready (\<lambda>k. cooperative)) = [1] \<and>
   init_logger (lwip_ok\<lparr>udp_bind_ok := False\<rparr>) (Some ''192.168.1.1'') 515 (ready (\<lambda>k. cooperative))
     = (False, (ready (\<lambda>k. cooperative))
          \<lparr>logger_syslog := (logger_syslog (ready (\<lambda>k. cooperative)))
              \<lparr>port := 515, initialized := False, udp := None\<rparr>,
           pcbs := [],
           stdout := stdout (ready (\<lambda>k. cooperative)) @
              [''ERROR: Failed to create UDP PCB for syslog'' @ [CHR 0x0A]]\<rparr>) \<and>
   handle_inv (snd (logger_output LOG_LEVEL_INFO (Some ''A'') ''hello'' (ready (\<lambda>k. cooperative))))"
proof -
  have b: "handle_inv (boot (\<lambda>k. cooperative))"
    by (simp add: handle_inv_def boot_def logger_syslog_init_def)
  have r: "handle_inv (ready (\<lambda>k. cooperative))"
    using configure_handles [OF b, of lwip_ok "Some ''192.168.1.1''" 514]
    by (simp add: ready_def)
  have q: "quiet (ready (\<lambda>k. cooperative))"
    by (simp add: quiet_def ready_eq cooperative_def)
  have g: "passes_guard (lwip_ok\<lparr>udp_bind_ok := False\<rparr>) (Some ''192.168.1.1'') 515
      (ready (\<lambda>k. cooperative))"
    by (simp add: passes_guard_def lwip_ok_def)
  have "init_logger (lwip_ok\<lparr>udp_bind_ok := False\<rparr>) (Some ''192.168.1.1'') 515
      (ready (\<lambda>k. cooperative))
     = (False, (ready (\<lambda>k. cooperative))
          \<lparr>logger_syslog := (logger_syslog (ready (\<lambda>k. cooperative)))
              \<lparr>port := 515, initialized := False, udp := None\<rparr>,
           pcbs := [],
           stdout := stdout (ready (\<lambda>k. cooperative)) @
              [''ERROR: Failed to create UDP PCB for syslog'' @ [CHR 0x0A]]\<rparr>)"
    by (simp add: ready_eq lwip_ok_def init_logger_def printf_def Let_def
        cleanup_existing_def create_and_bind_def set_udp_def set_initialized_def udp_remove_def
        fresh_pcb_def)
  moreover have "handle_inv (snd (logger_output LOG_LEVEL_INFO (Some ''A'') ''hello''
      (ready (\<lambda>k. cooperative))))"
    using configure_handles [OF r, of lwip_ok None 0 True 0 LOG_LEVEL_INFO "Some ''A''" "''hello''"] q
    by blast
  moreover have "pcbs (ready (\<lambda>k. cooperative)) = [1]"
    by (simp add: ready_eq)
  ultimately show ?thesis
    using b r by simp
qed


end
